theory Spec2Isabelle
  imports Complex_Main "HOL-Library.Char_ord" "HOL-Library.List_Lexorder" "HOL-Library.Log_Nat"
    "HOL-Library.Multiset"
begin

section \<open>Tokenizer (implicit\_to\_explicit.py, parse\_feature)\<close>

text \<open>
  Feature strings are ASCII strings. The two regular expressions of \<open>parse_feature\<close> are
  modelled by scanners: \<open>findall_var\<close> is \<open>re.findall(r"[a-zA-Z]\d*", s)\<close> and
  \<open>finditer_deriv\<close> is \<open>re.finditer(r"([a-zA-Z]\d*)(_dot|_t)", s)\<close>. In both the digit run
  is greedy; giving back digits never helps the second pattern, since the character after
  a shorter run is a digit and not an underscore, so a match at a position exists exactly
  when the maximal digit run is followed by one of the two suffixes (\<open>_dot\<close> tried first).
\<close>

definition is_letter :: "char \<Rightarrow> bool" where
  "is_letter c = (let n = (of_char c :: nat) in (97 \<le> n \<and> n \<le> 122) \<or> (65 \<le> n \<and> n \<le> 90))"

definition is_digit :: "char \<Rightarrow> bool" where
  "is_digit c = (let n = (of_char c :: nat) in 48 \<le> n \<and> n \<le> 57)"

function findall_var :: "string \<Rightarrow> string list" where
  "findall_var [] = []"
| "findall_var (c # cs) =
     (if is_letter c then (c # takeWhile is_digit cs) # findall_var (dropWhile is_digit cs)
      else findall_var cs)"
  by pat_completeness auto
termination
  by (relation "measure length") (auto simp: le_imp_less_Suc length_dropWhile_le)

definition match_suffix :: "string \<Rightarrow> string option" where
  "match_suffix s =
     (if take 4 s = ''_dot'' then Some ''_dot''
      else if take 2 s = ''_t'' then Some ''_t'' else None)"

definition match_deriv :: "string \<Rightarrow> (string \<times> string) option" where
  "match_deriv s =
     (case s of
        [] \<Rightarrow> None
      | c # cs \<Rightarrow>
          if is_letter c then
            (case match_suffix (dropWhile is_digit cs) of
               None \<Rightarrow> None
             | Some d \<Rightarrow> Some (c # takeWhile is_digit cs, d))
          else None)"

record rmatch =
  m_start :: nat
  m_end :: nat
  m_base :: string
  m_deriv :: string

fun finditer_deriv :: "nat \<Rightarrow> string \<Rightarrow> rmatch list" where
  "finditer_deriv pos [] = []"
| "finditer_deriv pos (c # cs) =
     (case match_deriv (c # cs) of
        None \<Rightarrow> finditer_deriv (Suc pos) cs
      | Some (b, d) \<Rightarrow>
          \<lparr>m_start = pos, m_end = pos + (length b + length d), m_base = b, m_deriv = d\<rparr>
            # finditer_deriv (pos + (length b + length d)) (drop (length b + length d - 1) cs))"

definition slice :: "'a list \<Rightarrow> nat \<Rightarrow> nat \<Rightarrow> 'a list" where
  "slice xs i j = take (j - i) (drop i xs)"

fun parse_loop :: "string \<Rightarrow> string list \<Rightarrow> nat \<Rightarrow> rmatch list \<Rightarrow> string list \<times> nat" where
  "parse_loop feature tokens last_pos [] = (tokens, last_pos)"
| "parse_loop feature tokens last_pos (m # ms) =
     (let prefix = slice feature last_pos (m_start m);
          tokens1 = (if prefix \<noteq> [] then tokens @ findall_var prefix else tokens);
          tokens2 = tokens1 @ [m_base m @ m_deriv m]
      in parse_loop feature tokens2 (m_end m) ms)"

definition parse_feature :: "string \<Rightarrow> string list" where
  "parse_feature feature =
     (let matches = finditer_deriv 0 feature in
      if matches = [] then findall_var feature
      else
        (case parse_loop feature [] 0 matches of
           (tokens, last_pos) \<Rightarrow>
             if last_pos < length feature then tokens @ findall_var (drop last_pos feature)
             else tokens))"


text \<open>
  Tokens occur in order: \<open>interleave gaps ts\<close> is the string
  \<open>g\<^sub>0 t\<^sub>1 g\<^sub>1 \<dots> t\<^sub>n g\<^sub>n\<close>, and \<open>in_order ts s\<close> says that \<open>s\<close> is such a string for some gaps,
  that is, the tokens are disjoint substrings of \<open>s\<close> met from left to right.
\<close>

fun interleave :: "string list \<Rightarrow> string list \<Rightarrow> string" where
  "interleave (g # gs) (t # ts) = g @ t @ interleave gs ts"
| "interleave gs [] = concat gs"
| "interleave [] ts = concat ts"

definition in_order :: "string list \<Rightarrow> string \<Rightarrow> bool" where
  "in_order ts s = (\<exists>gaps. length gaps = Suc (length ts) \<and> interleave gaps ts = s)"

section \<open>Equation assembly (implicit\_to\_explicit.py)\<close>

text \<open>
  The assembler builds SymPy expressions. They are kept here as the trees the source
  builds (SymPy reorders and merges the arguments of sums and products on construction,
  which changes the tree and never the value); \<open>eval\<close> gives the value of a tree under a
  valuation of the symbols, and statements about assembled equations are statements about
  these values. Coefficients are exact rational numbers. \<open>MulN\<close> is the unevaluated product
  that \<open>consolidate_product\<close> builds from its list \<open>terms\<close> with \<open>evaluate=False\<close>.
\<close>

datatype py_error = ValueError | IndexError | KeyError | GeneratorsError

datatype sexpr =
    Num rat
  | Sym string
  | Power sexpr nat
  | Mul sexpr sexpr
  | MulN "sexpr list"
  | Add sexpr sexpr
  | Sub sexpr sexpr

fun eval :: "(string \<Rightarrow> rat) \<Rightarrow> sexpr \<Rightarrow> rat" where
  "eval \<rho> (Num c) = c"
| "eval \<rho> (Sym s) = \<rho> s"
| "eval \<rho> (Power e k) = eval \<rho> e ^ k"
| "eval \<rho> (Mul a b) = eval \<rho> a * eval \<rho> b"
| "eval \<rho> (MulN es) = prod_list (map (eval \<rho>) es)"
| "eval \<rho> (Add a b) = eval \<rho> a + eval \<rho> b"
| "eval \<rho> (Sub a b) = eval \<rho> a - eval \<rho> b"

text \<open>
  \<open>sp.Eq(a, b)\<close> does not always build an equation: when SymPy can decide the equality it
  returns \<open>BooleanTrue\<close> or \<open>BooleanFalse\<close> in its place. For the expressions of the
  assembler, sums of a number times a product of powers of symbols without assumptions,
  it decides exactly when \<open>a - b\<close> is a number. SymPy collects the like terms of such a sum
  when it builds it, so \<open>a - b\<close> is a number when every power product other than \<open>1\<close> has
  the total coefficient zero. \<open>terms_of\<close> lists the terms of an expression, a coefficient
  with the multiset of the symbols of its power product, before like terms are collected;
  \<open>coefficient_of\<close> is the total coefficient of a power product.
\<close>

datatype equation = is_Eq: Eq sexpr sexpr | BooleanTrue | BooleanFalse

type_synonym monomial = "string multiset"

definition mul_terms ::
  "(rat \<times> monomial) list \<Rightarrow> (rat \<times> monomial) list \<Rightarrow> (rat \<times> monomial) list" where
  "mul_terms xs ys = concat (map (\<lambda>(a, m). map (\<lambda>(b, n). (a * b, m + n)) ys) xs)"

fun terms_of :: "sexpr \<Rightarrow> (rat \<times> monomial) list" where
  "terms_of (Num c) = [(c, {#})]"
| "terms_of (Sym s) = [(1, {#s#})]"
| "terms_of (Power e k) = (mul_terms (terms_of e) ^^ k) [(1, {#})]"
| "terms_of (Mul a b) = mul_terms (terms_of a) (terms_of b)"
| "terms_of (MulN es) = foldr (\<lambda>e ts. mul_terms (terms_of e) ts) es [(1, {#})]"
| "terms_of (Add a b) = terms_of a @ terms_of b"
| "terms_of (Sub a b) = terms_of a @ map (\<lambda>(c, m). (- c, m)) (terms_of b)"

definition coefficient_of :: "(rat \<times> monomial) list \<Rightarrow> monomial \<Rightarrow> rat" where
  "coefficient_of ts m = sum_list (map fst (filter (\<lambda>t. snd t = m) ts))"

definition sp_Eq :: "sexpr \<Rightarrow> sexpr \<Rightarrow> equation" where
  "sp_Eq lhs rhs =
     (let ts = terms_of (Sub lhs rhs)
      in if list_all (\<lambda>t. snd t = {#} \<or> coefficient_of ts (snd t) = 0) ts
         then (if coefficient_of ts {#} = 0 then BooleanTrue else BooleanFalse)
         else Eq lhs rhs)"

text \<open>
  \<open>extract_distinct_features\<close>: the set of tokens is kept as a duplicate-free list and
  sorted at the end (strings are compared by code point, as Python does); the dictionary
  \<open>feature_map\<close> is a map.
\<close>

fun extract_loop ::
  "string list \<Rightarrow> string list \<times> (string \<rightharpoonup> string list) \<Rightarrow> string list \<times> (string \<rightharpoonup> string list)" where
  "extract_loop [] (unique_tokens, feature_map) = (unique_tokens, feature_map)"
| "extract_loop (feat # feats) (unique_tokens, feature_map) =
     (let toks = parse_feature feat
      in extract_loop feats (List.union toks unique_tokens, feature_map(feat \<mapsto> toks)))"

definition extract_distinct_features ::
  "string list \<Rightarrow> string list \<times> (string \<rightharpoonup> string list)" where
  "extract_distinct_features feature_names =
     (case extract_loop feature_names ([], Map.empty) of
        (unique_tokens, feature_map) \<Rightarrow> (sort unique_tokens, feature_map))"

text \<open>
  \<open>consolidate_product\<close>: \<open>token_counts\<close> is a Python dictionary, which keeps its keys in the
  order of their first insertion, so it is an association list here. Looking a token up in
  \<open>token_symbols\<close> raises \<open>KeyError\<close> when the token is missing.
\<close>

fun incr_count :: "string \<Rightarrow> (string \<times> nat) list \<Rightarrow> (string \<times> nat) list" where
  "incr_count token [] = [(token, 1)]"
| "incr_count token ((k, v) # kvs) =
     (if k = token then (k, v + 1) # kvs else (k, v) # incr_count token kvs)"

fun power_terms :: "(string \<times> nat) list \<Rightarrow> (string \<rightharpoonup> sexpr) \<Rightarrow> py_error + sexpr list" where
  "power_terms [] token_symbols = Inr []"
| "power_terms ((token, cnt) # items) token_symbols =
     (case token_symbols token of
        None \<Rightarrow> Inl KeyError
      | Some symbol \<Rightarrow>
          (case power_terms items token_symbols of
             Inl e \<Rightarrow> Inl e
           | Inr terms \<Rightarrow> Inr (Power symbol cnt # terms)))"

definition consolidate_product :: "string list \<Rightarrow> (string \<rightharpoonup> sexpr) \<Rightarrow> py_error + sexpr" where
  "consolidate_product tokens token_symbols =
     (let token_counts = fold incr_count tokens []
      in (case power_terms token_counts token_symbols of
            Inl e \<Rightarrow> Inl e
          | Inr terms \<Rightarrow> Inr (MulN terms)))"

text \<open>
  \<open>sp.Matrix\<close> of a list of rows: rows of different lengths are rejected with \<open>ValueError\<close>;
  otherwise the matrix stores its shape and its entries row by row, and \<open>M[i, j]\<close> raises
  \<open>IndexError\<close> outside the shape (the source only uses indices from \<open>range(n)\<close>).
\<close>

record matrix =
  nrows :: nat
  ncols :: nat
  flat :: "rat list"

definition sp_Matrix :: "rat list list \<Rightarrow> py_error + matrix" where
  "sp_Matrix rows =
     (if list_all (\<lambda>r. length r = length (hd rows)) rows
      then Inr \<lparr>nrows = length rows,
                ncols = (if rows = [] then 0 else length (hd rows)),
                flat = concat rows\<rparr>
      else Inl ValueError)"

definition getitem :: "matrix \<Rightarrow> nat \<Rightarrow> nat \<Rightarrow> py_error + rat" where
  "getitem M i j =
     (if i < nrows M \<and> j < ncols M then Inr (flat M ! (i * ncols M + j)) else Inl IndexError)"

text \<open>
  \<open>sum(M[i, j] * consolidate_product(fmap[feature_names[j]], token_symbols) for j in range(n))\<close>:
  Python's \<open>sum\<close> starts from \<open>0\<close> and adds the terms from left to right; the first
  exception ends it.
\<close>

fun sum_terms ::
  "matrix \<Rightarrow> (string \<rightharpoonup> string list) \<Rightarrow> (string \<rightharpoonup> sexpr) \<Rightarrow> string list \<Rightarrow> nat \<Rightarrow>
   nat list \<Rightarrow> sexpr \<Rightarrow> py_error + sexpr" where
  "sum_terms M fmap token_symbols feature_names i [] acc = Inr acc"
| "sum_terms M fmap token_symbols feature_names i (j # js) acc =
     (case getitem M i j of
        Inl e \<Rightarrow> Inl e
      | Inr c \<Rightarrow>
          (case fmap (feature_names ! j) of
             None \<Rightarrow> Inl KeyError
           | Some toks \<Rightarrow>
               (case consolidate_product toks token_symbols of
                  Inl e \<Rightarrow> Inl e
                | Inr p \<Rightarrow>
                    sum_terms M fmap token_symbols feature_names i js (Add acc (Mul (Num c) p)))))"

fun build_rows ::
  "matrix \<Rightarrow> matrix \<Rightarrow> (string \<rightharpoonup> string list) \<Rightarrow> (string \<rightharpoonup> sexpr) \<Rightarrow> string list \<Rightarrow>
   nat \<Rightarrow> nat list \<Rightarrow> equation list \<Rightarrow> py_error + equation list" where
  "build_rows L R fmap token_symbols feature_names n [] eq_list = Inr eq_list"
| "build_rows L R fmap token_symbols feature_names n (i # is) eq_list =
     (case sum_terms L fmap token_symbols feature_names i [0..<n] (Num 0) of
        Inl e \<Rightarrow> Inl e
      | Inr lhs \<Rightarrow>
          (case sum_terms R fmap token_symbols feature_names i [0..<n] (Num 0) of
             Inl e \<Rightarrow> Inl e
           | Inr rhs \<Rightarrow>
               build_rows L R fmap token_symbols feature_names n is
                 (eq_list @ [sp_Eq (Sub lhs rhs) (Num 0)])))"

definition generate_symbolic_equations_both_sides ::
  "string list \<Rightarrow> rat list list \<Rightarrow> rat list list \<Rightarrow>
   py_error + (equation list \<times> (string \<rightharpoonup> sexpr))" where
  "generate_symbolic_equations_both_sides feature_names left_coeff right_coeff =
     (case extract_distinct_features feature_names of
        (distinct_tokens, fmap) \<Rightarrow>
          let token_symbols = map_of (map (\<lambda>tok. (tok, Sym tok)) distinct_tokens);
              n = length feature_names
          in (case sp_Matrix left_coeff of
                Inl e \<Rightarrow> Inl e
              | Inr L \<Rightarrow>
                  (case sp_Matrix right_coeff of
                     Inl e \<Rightarrow> Inl e
                   | Inr R \<Rightarrow>
                       (case build_rows L R fmap token_symbols feature_names n [0..<n] [] of
                          Inl e \<Rightarrow> Inl e
                        | Inr eq_list \<Rightarrow> Inr (eq_list, token_symbols)))))"

definition generate_identity_matrix :: "string list \<Rightarrow> rat list list" where
  "generate_identity_matrix features =
     map (\<lambda>i. map (\<lambda>j. if i = j then 1 else 0) [0..<length features]) [0..<length features]"

text \<open>
  The words of the specification, for comparison with the assembled equations: the value of
  the monomial of a feature is the product of the values of its tokens; \<open>assembled_row\<close>
  says that a row is what \<open>sp.Eq(lhs - rhs, 0)\<close> returns, with the two sums of the
  specification as values of \<open>lhs\<close> and \<open>rhs\<close>.
\<close>

definition feature_value :: "(string \<Rightarrow> rat) \<Rightarrow> string \<Rightarrow> rat" where
  "feature_value \<rho> feature = prod_list (map \<rho> (parse_feature feature))"

definition entry :: "matrix \<Rightarrow> nat \<Rightarrow> nat \<Rightarrow> rat" where
  "entry M i j = flat M ! (i * ncols M + j)"

definition counts_value :: "(string \<Rightarrow> rat) \<Rightarrow> (string \<times> nat) list \<Rightarrow> rat" where
  "counts_value \<rho> kvs = prod_list (map (\<lambda>(k, v). \<rho> k ^ v) kvs)"

text \<open>The vocabulary and the symbol table of a feature list cover every feature of the list.\<close>

definition known :: "(string \<rightharpoonup> string list) \<Rightarrow> (string \<rightharpoonup> sexpr) \<Rightarrow> string list \<Rightarrow> bool" where
  "known fmap syms fs =
     (\<forall>f \<in> set fs. fmap f = Some (parse_feature f) \<and>
        (\<forall>t \<in> set (parse_feature f). syms t = Some (Sym t)))"

definition square :: "nat \<Rightarrow> rat list list \<Rightarrow> bool" where
  "square n rows = (length rows = n \<and> list_all (\<lambda>r. length r = n) rows)"

definition assembled_row ::
  "rat list list \<Rightarrow> rat list list \<Rightarrow> string list \<Rightarrow> nat \<Rightarrow> equation \<Rightarrow> bool" where
  "assembled_row left_coeff right_coeff fs i eq =
     (\<exists>lhs rhs. eq = sp_Eq (Sub lhs rhs) (Num 0) \<and>
        (\<forall>\<rho>. eval \<rho> lhs = (\<Sum>j<length fs. left_coeff ! i ! j * feature_value \<rho> (fs ! j))) \<and>
        (\<forall>\<rho>. eval \<rho> rhs = (\<Sum>j<length fs. right_coeff ! i ! j * feature_value \<rho> (fs ! j))))"

definition too_small :: "nat \<Rightarrow> matrix \<Rightarrow> bool" where
  "too_small n M = (nrows M < n \<or> ncols M < n)"

definition row_value ::
  "matrix \<Rightarrow> matrix \<Rightarrow> string list \<Rightarrow> nat \<Rightarrow> equation \<Rightarrow> bool" where
  "row_value L R fs i eq =
     (\<exists>lhs rhs. eq = sp_Eq (Sub lhs rhs) (Num 0) \<and>
        (\<forall>\<rho>. eval \<rho> lhs = (\<Sum>j<length fs. entry L i j * feature_value \<rho> (fs ! j))) \<and>
        (\<forall>\<rho>. eval \<rho> rhs = (\<Sum>j<length fs. entry R i j * feature_value \<rho> (fs ! j))))"

section \<open>Rational expressions and drop\_small\_terms (symbolic\_model\_utils.py)\<close>

text \<open>
  The expressions of the simplification pipeline are rational expressions in the symbols,
  or SymPy's \<open>zoo\<close> (complex infinity, the value SymPy gives to a division by zero). A
  rational expression is kept as the pair that \<open>sp.fraction\<close> returns, both sides expanded:
  a polynomial is the list of its additive terms in the order of \<open>as_ordered_terms\<close>, and a
  term is a numeric coefficient with a power product of symbols (a multiset of symbol
  names, the empty one for a constant term). The zero polynomial is the empty list.

  A coefficient is a SymPy number: an exact number (\<open>Integer\<close> or \<open>Rational\<close>) or a \<open>Float\<close>.
  It is kept as its value, a rational number, together with its kind, because SymPy treats
  the two kinds differently: exact numbers are multiplied exactly and an exact fraction
  \<open>p/q\<close> in front of a product is split by \<open>sp.fraction\<close> into \<open>p\<close> above and \<open>q\<close> below,
  while a \<open>Float\<close> stays in the numerator and every operation on it is rounded.
  \<open>as_numer_denom\<close> returns the same pair as \<open>sp.fraction\<close> when the exact coefficients are
  integers (it clears the denominators of exact fractions inside a sum, which \<open>sp.fraction\<close>
  leaves there).
\<close>

datatype kind = Exact | Floating

type_synonym number = "rat \<times> kind"

type_synonym pterm = "rat \<times> kind \<times> monomial"

type_synonym polynomial = "pterm list"

datatype expr = Zoo | Frac polynomial polynomial

definition term_kind :: "pterm \<Rightarrow> kind" where
  "term_kind t = fst (snd t)"

definition term_monomial :: "pterm \<Rightarrow> monomial" where
  "term_monomial t = snd (snd t)"

text \<open>
  Arithmetic of SymPy numbers. A \<open>Float\<close> made from a Python float has 53 bits, and mpmath
  rounds every operation to the nearest number of 53 bits, ties to even, with an exponent
  that is not bounded: \<open>fl\<close> is this rounding (\<open>binade x\<close> is \<open>\<lfloor>log\<^sub>2 |x|\<rfloor>\<close>). A product of two
  exact numbers is exact; any other product converts both factors to 53 bits and rounds
  the product, the product of a number with the integer \<open>1\<close> being that number. \<open>Pow(c, -1)\<close>
  is the exact inverse of an exact \<open>c\<close> and the rounded inverse of a \<open>Float\<close>. The quotient
  \<open>a / c\<close> of two numbers is \<open>Float.__truediv__\<close> for a \<open>Float\<close> \<open>a\<close>, one rounded division, and
  \<open>a * (1 / c)\<close> for an exact \<open>a\<close> (\<open>Rational.__truediv__\<close>).
\<close>

definition pow2 :: "int \<Rightarrow> rat" where
  "pow2 k = (if 0 \<le> k then 2 ^ nat k else 1 / 2 ^ nat (- k))"

definition round_half_even :: "rat \<Rightarrow> int" where
  "round_half_even y =
     (let f = \<lfloor>y\<rfloor>; r = y - of_int f
      in if r < 1 / 2 then f else if 1 / 2 < r then f + 1 else if even f then f else f + 1)"

definition binade :: "rat \<Rightarrow> int" where
  "binade x =
     (case quotient_of \<bar>x\<bar> of
        (p, q) \<Rightarrow> let k = bitlen p - bitlen q in if pow2 k \<le> \<bar>x\<bar> then k else k - 1)"

definition fl :: "rat \<Rightarrow> rat" where
  "fl x = (if x = 0 then 0
           else let u = pow2 (binade x - 52) in of_int (round_half_even (x / u)) * u)"

definition num_mul :: "number \<Rightarrow> number \<Rightarrow> number" where
  "num_mul x y =
     (if snd x = Exact \<and> snd y = Exact then (fst x * fst y, Exact)
      else if y = (1, Exact) then x
      else if x = (1, Exact) then y
      else (fl (fl (fst x) * fl (fst y)), Floating))"

definition num_inv :: "number \<Rightarrow> number" where
  "num_inv c = (if snd c = Exact then (1 / fst c, Exact) else (fl (1 / fst c), Floating))"

definition num_div :: "number \<Rightarrow> number \<Rightarrow> number" where
  "num_div x y =
     (if y = (1, Exact) then x
      else if snd x = Floating then (fl (fst x / fl (fst y)), Floating)
      else num_mul x (num_inv y))"

text \<open>The numerator \<open>p\<close> and the denominator \<open>q > 0\<close> of an exact number \<open>p/q\<close> in lowest
  terms.\<close>

definition numer :: "rat \<Rightarrow> rat" where
  "numer v = of_int (fst (quotient_of v))"

definition denom :: "rat \<Rightarrow> rat" where
  "denom v = of_int (snd (quotient_of v))"

text \<open>The SymPy operations the source uses, on this representation.\<close>

definition expand :: "polynomial \<Rightarrow> polynomial" where
  "expand p = p"

definition as_ordered_terms :: "polynomial \<Rightarrow> pterm list" where
  "as_ordered_terms p = (if p = [] then [(0, Exact, {#})] else p)"

definition as_coeff_Mul :: "pterm \<Rightarrow> rat \<times> kind \<times> monomial" where
  "as_coeff_Mul t = t"

definition is_number :: "rat \<Rightarrow> bool" where
  "is_number c = True"

definition is_zero :: "rat \<Rightarrow> bool" where
  "is_zero c = (c = 0)"

definition evalf :: "rat \<Rightarrow> rat" where
  "evalf c = c"

definition sp_Add :: "pterm list \<Rightarrow> polynomial" where
  "sp_Add terms = filter (\<lambda>t. fst t \<noteq> 0) terms"

text \<open>The product of a number with a sum is distributed over the terms of the sum.\<close>

definition scale :: "number \<Rightarrow> polynomial \<Rightarrow> polynomial" where
  "scale r p = map (\<lambda>(a, k, m). (fst (num_mul (a, k) r), snd (num_mul (a, k) r), m)) p"

text \<open>
  \<open>sp_div n d\<close> is the quotient \<open>n / d\<close> of two expanded polynomials as SymPy builds it, read
  back through \<open>sp.fraction\<close> and expanded. Two numbers are divided as numbers. Otherwise the
  quotient is \<open>Mul(n, Pow(d, -1))\<close>, and SymPy evaluates the power of a single term \<open>c\<cdot>m\<close> to
  \<open>(1/c)\<cdot>m\<^sup>-\<^sup>1\<close>, collecting the numbers of a product in one coefficient.

  \<^item> A single term over a single term has the coefficient \<open>a\<cdot>(1/c)\<close> and the common symbol
    powers cancel; an exact coefficient \<open>p/q\<close> is split into \<open>p\<close> above and \<open>q\<close> below, a
    \<open>Float\<close> stays above.
  \<^item> A sum over a single term \<open>c\<cdot>m\<close>: a \<open>Float\<close> \<open>1/c\<close> is distributed over the numerator and
    the denominator is \<open>m\<close>; so is an exact \<open>1/c\<close> when \<open>m\<close> is \<open>1\<close> (the product of a number
    and a sum is distributed on construction); otherwise an exact \<open>1/c = p/q\<close> is split,
    \<open>p\<close> is distributed over the numerator and the denominator is \<open>q\<cdot>m\<close>.
  \<^item> A single term with an exact coefficient \<open>p/q\<close> over a sum: the numerator gets \<open>p\<close> and
    \<open>q\<close> is distributed over the denominator.
  \<^item> Any other quotient by a sum of several terms is kept as it is, except that \<open>d / d\<close> is
    \<open>1\<close>.

  \<open>0 / d\<close> is \<open>0\<close>. A quotient by zero is \<open>zoo\<close> (times the numerator); the source never
  builds one.
\<close>

definition sp_div :: "polynomial \<Rightarrow> polynomial \<Rightarrow> expr" where
  "sp_div n d =
     (if d = [] then Zoo
      else if n = [] then Frac [] [(1, Exact, {#})]
      else
        (case d of
           [(c, kc, m)] \<Rightarrow>
             (case n of
                [(a, ka, k)] \<Rightarrow>
                  let q = (if k = {#} \<and> m = {#} then num_div (a, ka) (c, kc)
                           else num_mul (a, ka) (num_inv (c, kc)))
                  in if snd q = Exact
                     then Frac [(numer (fst q), Exact, k - m)] [(denom (fst q), Exact, m - k)]
                     else Frac [(fst q, Floating, k - m)] [(1, Exact, m - k)]
              | _ \<Rightarrow>
                  let r = num_inv (c, kc)
                  in if snd r = Floating \<or> m = {#} then Frac (scale r n) [(1, Exact, m)]
                     else Frac (scale (numer (fst r), Exact) n) [(denom (fst r), Exact, m)])
         | _ \<Rightarrow>
             (case n of
                [(a, Exact, k)] \<Rightarrow> Frac [(numer a, Exact, k)] (scale (denom a, Exact) d)
              | _ \<Rightarrow> if n = d then Frac [(1, Exact, {#})] [(1, Exact, {#})] else Frac n d)))"

text \<open>\<open>expand_rational_expr\<close> of the source: \<open>sp.expand(num) / sp.expand(den)\<close> of the
  two sides of \<open>sp.fraction(expr)\<close>; \<open>sp.fraction(zoo)\<close> is \<open>(zoo, 1)\<close>.\<close>

definition expand_rational_expr :: "expr \<Rightarrow> expr" where
  "expand_rational_expr e =
     (case e of Zoo \<Rightarrow> Zoo | Frac num den \<Rightarrow> sp_div (expand num) (expand den))"

text \<open>
  \<open>drop_small_terms\<close>. Its \<open>num\<close> and \<open>den\<close> are the two sides that \<open>as_numer_denom\<close> returns,
  expanded. The inner function \<open>filter_terms\<close> is a loop that appends the kept terms to
  \<open>new_terms\<close>. Python's \<open>max(xs, key=f)\<close> returns the first element of greatest key; the
  source calls it on a non-empty list only. The filter and its fallback are written once,
  as \<open>retained_terms\<close>, and used for the numerator and for the denominator as the source
  does in turn; \<open>cleaned\<close> is \<open>num_clean\<close>, respectively \<open>den_clean\<close>, of the source. For
  \<open>zoo\<close> the source computes \<open>zoo / 1\<close>, which is \<open>zoo\<close>.
\<close>

fun filter_loop :: "rat \<Rightarrow> pterm list \<Rightarrow> pterm list \<Rightarrow> pterm list" where
  "filter_loop tol [] new_terms = new_terms"
| "filter_loop tol (t # terms) new_terms =
     (case as_coeff_Mul t of
        (coeff, _) \<Rightarrow>
          if is_number coeff \<and> \<not> is_zero coeff \<and> \<bar>evalf coeff\<bar> > tol
          then filter_loop tol terms (new_terms @ [t])
          else filter_loop tol terms new_terms)"

definition filter_terms :: "rat \<Rightarrow> pterm list \<Rightarrow> pterm list" where
  "filter_terms tol terms = filter_loop tol terms []"

definition py_max :: "('a \<Rightarrow> rat) \<Rightarrow> 'a list \<Rightarrow> 'a" where
  "py_max key xs = fold (\<lambda>x best. if key best < key x then x else best) (tl xs) (hd xs)"

definition magnitude :: "pterm \<Rightarrow> rat" where
  "magnitude t = \<bar>evalf (fst (as_coeff_Mul t))\<bar>"

definition retained_terms :: "rat \<Rightarrow> polynomial \<Rightarrow> pterm list" where
  "retained_terms tol p =
     (let terms = filter_terms tol (as_ordered_terms p)
      in if terms = [] \<and> as_ordered_terms p \<noteq> []
         then [py_max magnitude (as_ordered_terms p)]
         else terms)"

definition cleaned :: "rat \<Rightarrow> polynomial \<Rightarrow> polynomial" where
  "cleaned tol p = sp_Add (retained_terms tol (expand p))"

definition drop_small_terms :: "expr \<Rightarrow> rat \<Rightarrow> expr" where
  "drop_small_terms expr tol =
     (case expr of
        Zoo \<Rightarrow> Zoo
      | Frac num den \<Rightarrow>
          let num_clean = cleaned tol num;
              den_clean = cleaned tol den
          in if den_clean = [] then Zoo
             else expand_rational_expr (sp_div num_clean den_clean))"


section \<open>rescale\_expression (symbolic\_model\_utils.py)\<close>

text \<open>
  \<open>rescale_expression\<close>. The function first replaces \<open>expr\<close> by \<open>sp.together(expr)\<close>, which
  rewrites a sum of fractions as one quotient (\<open>x/2 + y/3\<close> becomes \<open>(3x + 2y)/6\<close>); this
  SymPy function is a parameter of the model, named \<open>together\<close>, and nothing is assumed of
  it. \<open>N\<close> and \<open>D\<close> are the two sides of its result. \<open>D.is_number\<close> holds when \<open>D\<close> has no
  symbol. \<open>D.free_symbols\<close> sorted by name are the inferred generators; a generator list
  given by the caller is used when it is not empty.
\<close>

definition poly_is_number :: "polynomial \<Rightarrow> bool" where
  "poly_is_number p = list_all (\<lambda>t. term_monomial t = {#}) p"

definition free_symbols :: "polynomial \<Rightarrow> string list" where
  "free_symbols p =
     sort (remdups (concat (map (\<lambda>t. sorted_list_of_multiset (term_monomial t)) p)))"

definition effective_gens :: "polynomial \<Rightarrow> string list option \<Rightarrow> string list" where
  "effective_gens D gens =
     (case gens of
        None \<Rightarrow> free_symbols D
      | Some g \<Rightarrow> if g \<noteq> [] then g else free_symbols D)"

text \<open>
  \<open>sp.Poly(D, *gens)\<close> views \<open>D\<close> as a polynomial in the generators: every term of \<open>D\<close> gives
  the tuple of its exponents in the generators and a coefficient term in the other symbols.
  Repeated generators are rejected (\<open>GeneratorsError\<close>). The coefficients are converted to
  one domain: when some coefficient of \<open>D\<close> is a \<open>Float\<close> the domain is a real field and the
  exact coefficients become \<open>Float\<close>s too. \<open>monoms()\<close> lists the exponent tuples in
  decreasing lexicographic order, and is \<open>[(0, \<dots>, 0)]\<close> for the zero polynomial.
  \<open>coeff_monomial(t)\<close> raises \<open>ValueError\<close> unless \<open>t\<close> is a power product of generators with
  the integer coefficient one (a \<open>Float\<close> coefficient \<open>1.0\<close> is rejected); the coefficient of
  an exponent tuple that does not occur is zero. SymPy holds a sum with its like terms
  merged, so a coefficient that is a number is a single term without symbols; a
  coefficient of several terms has symbols that are not generators.
\<close>

definition all_exact :: "polynomial \<Rightarrow> bool" where
  "all_exact p = list_all (\<lambda>t. term_kind t = Exact) p"

definition in_domain :: "bool \<Rightarrow> number \<Rightarrow> number" where
  "in_domain real_field x =
     (if real_field \<and> snd x = Exact then (fl (fst x), Floating) else x)"

record poly =
  poly_gens :: "string list"
  poly_terms :: "(nat list \<times> pterm) list"

definition exponents :: "string list \<Rightarrow> monomial \<Rightarrow> nat list" where
  "exponents gens m = map (count m) gens"

definition cofactor :: "string list \<Rightarrow> monomial \<Rightarrow> monomial" where
  "cofactor gens m = filter_mset (\<lambda>s. s \<notin> set gens) m"

definition sp_Poly :: "polynomial \<Rightarrow> string list \<Rightarrow> py_error + poly" where
  "sp_Poly D gens =
     (if \<not> distinct gens then Inl GeneratorsError
      else Inr \<lparr>poly_gens = gens,
                poly_terms =
                  map (\<lambda>(a, k, m).
                         (exponents gens m,
                          (fst (in_domain (\<not> all_exact D) (a, k)),
                           snd (in_domain (\<not> all_exact D) (a, k)),
                           cofactor gens m))) D\<rparr>)"

definition monoms :: "poly \<Rightarrow> nat list list" where
  "monoms p =
     (if poly_terms p = [] then [replicate (length (poly_gens p)) 0]
      else rev (sort (remdups (map fst (poly_terms p)))))"

definition coeff_at :: "poly \<Rightarrow> nat list \<Rightarrow> polynomial" where
  "coeff_at p e = map snd (filter (\<lambda>t. fst t = e) (poly_terms p))"

definition monomial_exponents :: "poly \<Rightarrow> polynomial \<Rightarrow> py_error + nat list" where
  "monomial_exponents p t =
     (case t of
        [(c, k, m)] \<Rightarrow>
          if c = 1 \<and> k = Exact \<and> cofactor (poly_gens p) m = {#}
          then Inr (exponents (poly_gens p) m)
          else Inl ValueError
      | _ \<Rightarrow> Inl ValueError)"

definition coeff_monomial :: "poly \<Rightarrow> polynomial \<Rightarrow> py_error + polynomial" where
  "coeff_monomial p t =
     (case monomial_exponents p t of Inl e \<Rightarrow> Inl e | Inr e \<Rightarrow> Inr (coeff_at p e))"

definition number_value :: "polynomial \<Rightarrow> number option" where
  "number_value c =
     (case c of
        [] \<Rightarrow> Some (0, Exact)
      | [(a, k, m)] \<Rightarrow> if m = {#} then Some (a, k) else None
      | _ \<Rightarrow> None)"

definition has_nan :: "rat \<Rightarrow> bool" where
  "has_nan c = False"

text \<open>The test of the source on a coefficient:
  \<open>coeff.is_number and not coeff.has(sp.nan) and not coeff.is_zero and abs(coeff.evalf()) > 1e-12\<close>;
  \<open>usable_value\<close> is the number when the test passes.\<close>

definition usable_value :: "polynomial \<Rightarrow> number option" where
  "usable_value coeff =
     (case number_value coeff of
        None \<Rightarrow> None
      | Some v \<Rightarrow>
          if \<not> has_nan (fst v) \<and> \<not> is_zero (fst v) \<and> \<bar>evalf (fst v)\<bar> > 1 / 10 ^ 12
          then Some v else None)"

text \<open>Option 1 of the source: the monomial given by the caller.\<close>

definition target_choice ::
  "poly \<Rightarrow> polynomial option \<Rightarrow> py_error + (number \<times> nat list) option" where
  "target_choice p target =
     (case target of
        None \<Rightarrow> Inr None
      | Some t \<Rightarrow>
          (case monomial_exponents p (expand t) of
             Inl e \<Rightarrow> Inl e
           | Inr e \<Rightarrow>
               (case usable_value (coeff_at p e) of
                  Some c \<Rightarrow> Inr (Some (c, e))
                | None \<Rightarrow> Inr None)))"

text \<open>Option 2 of the source: \<open>max\<close> of the total degrees, then
  \<open>sorted([m for m, d in zip(monoms, total_degrees) if d == max_deg])[0]\<close>. Tuples are
  compared lexicographically. Both are applied to a non-empty list only.\<close>

definition py_max_nat :: "nat list \<Rightarrow> nat" where
  "py_max_nat xs = fold max (tl xs) (hd xs)"

definition leading_exponents :: "nat list list \<Rightarrow> nat list" where
  "leading_exponents ms =
     (let total_degrees = map sum_list ms;
          max_deg = py_max_nat total_degrees
      in hd (sort (map fst (filter (\<lambda>md. snd md = max_deg) (zip ms total_degrees)))))"

text \<open>The branch that the function takes, as its \<open>verbose\<close> messages name it, with the
  scaling coefficient and the exponent tuple of the monomial used.\<close>

datatype choice =
    Skip_constant
  | Poly_failed py_error
  | No_monomials
  | Abort_leading
  | Target_found number "nat list"
  | Leading_term number "nat list"

definition rescale_choice :: "polynomial \<Rightarrow> polynomial option \<Rightarrow> string list option \<Rightarrow> choice" where
  "rescale_choice D target gens =
     (if poly_is_number D then Skip_constant
      else
        (case sp_Poly D (effective_gens D gens) of
           Inl e \<Rightarrow> Poly_failed e
         | Inr p \<Rightarrow>
             (case target_choice p target of
                Inl e \<Rightarrow> Poly_failed e
              | Inr (Some (c, e)) \<Rightarrow> Target_found c e
              | Inr None \<Rightarrow>
                  if monoms p = [] then No_monomials
                  else
                    (case usable_value (coeff_at p (leading_exponents (monoms p))) of
                       Some c \<Rightarrow> Leading_term c (leading_exponents (monoms p))
                     | None \<Rightarrow> Abort_leading))))"

text \<open>\<open>N / scaling_coeff\<close> and \<open>D / scaling_coeff\<close>: a number is divided as a number, any
  other expression \<open>p\<close> gives \<open>Mul(p, Pow(scaling_coeff, -1))\<close>.\<close>

definition divide_by :: "number \<Rightarrow> polynomial \<Rightarrow> polynomial" where
  "divide_by c p =
     (case p of
        [(a, k, m)] \<Rightarrow>
          if m = {#} then [(fst (num_div (a, k) c), snd (num_div (a, k) c), {#})]
          else scale (num_inv c) p
      | _ \<Rightarrow> scale (num_inv c) p)"

definition rescale_expression ::
  "(expr \<Rightarrow> expr) \<Rightarrow> expr \<Rightarrow> polynomial option \<Rightarrow> string list option \<Rightarrow> expr" where
  "rescale_expression together expr target gens =
     (case together expr of
        Zoo \<Rightarrow> Zoo
      | Frac N D \<Rightarrow>
          (case rescale_choice D target gens of
             Target_found c e \<Rightarrow>
               expand_rational_expr (sp_div (divide_by c N) (divide_by c D))
           | Leading_term c e \<Rightarrow>
               expand_rational_expr (sp_div (divide_by c N) (divide_by c D))
           | _ \<Rightarrow> Frac N D))"


definition target_usable :: "poly \<Rightarrow> polynomial option \<Rightarrow> nat list \<Rightarrow> bool" where
  "target_usable p target e =
     (\<exists>t c. target = Some t \<and> monomial_exponents p (expand t) = Inr e \<and>
            usable_value (coeff_at p e) = Some c)"

definition unusable :: "polynomial \<Rightarrow> bool" where
  "unusable coeff =
     (case number_value coeff of
        None \<Rightarrow> True
      | Some v \<Rightarrow> fst v = 0 \<or> \<bar>fst v\<bar> \<le> 1 / 10 ^ 12)"


text \<open>The value that \<open>sp.together\<close> has at \<open>x/2 + y/3\<close>, and no other.\<close>

definition together_sample :: "expr \<Rightarrow> expr" where
  "together_sample e =
     (if e = Frac [(1 / 2, Exact, {#''x''#}), (1 / 3, Exact, {#''y''#})] [(1, Exact, {#})]
      then Frac [(3, Exact, {#''x''#}), (2, Exact, {#''y''#})] [(6, Exact, {#})]
      else e)"

section \<open>print\_and\_store\_models (symbolic\_model\_utils.py)\<close>

text \<open>
  \<open>print_and_store_models\<close>. The stages that the loop calls are parameters of the model:
  \<open>solve\<close> is \<open>sp.solve(eq, xdot_symbol)\<close>, \<open>together_expand\<close> is \<open>sp.together(sp.expand(raw))\<close>,
  \<open>rescale\<close> is \<open>rescale_expression\<close> with the given target and generators, \<open>drop_terms\<close> is
  \<open>drop_small_terms\<close> with the given tolerance, and \<open>round_expand\<close> is
  \<open>expand_rational_expr(cleaned.evalf(sig_digits))\<close>. What is proved of the loop holds
  whatever the stages return. The numerator of \<open>sp.fraction\<close> is zero for the zero
  polynomial only (the numerator of \<open>zoo\<close> is \<open>zoo\<close>).
\<close>

record 'eq engine =
  solve :: "'eq \<Rightarrow> expr list"
  together_expand :: "expr \<Rightarrow> expr"
  rescale :: "expr \<Rightarrow> expr"
  drop_terms :: "expr \<Rightarrow> expr"
  round_expand :: "expr \<Rightarrow> expr"

definition numerator_is_zero :: "expr \<Rightarrow> bool" where
  "numerator_is_zero e = (case e of Zoo \<Rightarrow> False | Frac num den \<Rightarrow> num = [])"

text \<open>What the function prints, and the state of its loop: the four dictionaries, the two
  counters, the printed lines, the LaTeX blocks written and the rows collected for the CSV
  file (a row is built from the index, the final and the cleaned expression).\<close>

datatype message =
    No_solution nat
  | Zero_numerator nat
  | All_terms_dropped nat
  | Model_block nat expr
  | Summary nat nat nat

record models =
  raw_models :: "nat \<rightharpoonup> expr"
  rescaled_models :: "nat \<rightharpoonup> expr"
  cleaned_models :: "nat \<rightharpoonup> expr"
  final_models :: "nat \<rightharpoonup> expr"
  failed_models :: nat
  successful_models :: nat
  printed :: "message list"
  latex_blocks :: "(nat \<times> expr) list"
  rows_for_csv :: "(nat \<times> expr \<times> expr) list"

definition initial_models :: models where
  "initial_models =
     \<lparr>raw_models = Map.empty, rescaled_models = Map.empty, cleaned_models = Map.empty,
      final_models = Map.empty, failed_models = 0, successful_models = 0, printed = [],
      latex_blocks = [], rows_for_csv = []\<rparr>"

definition process_row :: "'eq engine \<Rightarrow> bool \<Rightarrow> nat \<Rightarrow> 'eq \<Rightarrow> models \<Rightarrow> models" where
  "process_row eng latex i eq st =
     (let sols = solve eng eq in
      if sols = [] then
        st\<lparr>printed := printed st @ [No_solution i], failed_models := failed_models st + 1\<rparr>
      else
        let raw = hd sols;
            raw_expanded = together_expand eng raw;
            st = st\<lparr>raw_models := (raw_models st)(i \<mapsto> raw_expanded)\<rparr>
        in
        if numerator_is_zero raw_expanded then
          st\<lparr>printed := printed st @ [Zero_numerator i], failed_models := failed_models st + 1\<rparr>
        else
          let rescaled = rescale eng raw_expanded;
              st = st\<lparr>rescaled_models := (rescaled_models st)(i \<mapsto> rescaled)\<rparr>;
              cleaned = drop_terms eng rescaled
          in
          if numerator_is_zero cleaned then
            st\<lparr>printed := printed st @ [All_terms_dropped i],
               failed_models := failed_models st + 1\<rparr>
          else
            let final_expr = round_expand eng cleaned in
            st\<lparr>cleaned_models := (cleaned_models st)(i \<mapsto> cleaned),
               final_models := (final_models st)(i \<mapsto> final_expr),
               successful_models := successful_models st + 1,
               printed := printed st @ [Model_block i final_expr],
               latex_blocks := (if latex then latex_blocks st @ [(i, final_expr)]
                                else latex_blocks st),
               rows_for_csv := rows_for_csv st @ [(i, final_expr, cleaned)]\<rparr>)"

text \<open>\<open>for i, eq in enumerate(eq_list)\<close>, then the summary.\<close>

fun process_rows :: "'eq engine \<Rightarrow> bool \<Rightarrow> nat \<Rightarrow> 'eq list \<Rightarrow> models \<Rightarrow> models" where
  "process_rows eng latex i [] st = st"
| "process_rows eng latex i (eq # eqs) st =
     process_rows eng latex (Suc i) eqs (process_row eng latex i eq st)"

definition print_and_store_models :: "'eq engine \<Rightarrow> bool \<Rightarrow> 'eq list \<Rightarrow> models" where
  "print_and_store_models eng latex eq_list =
     (let st = process_rows eng latex 0 eq_list initial_models
      in st\<lparr>printed := printed st
            @ [Summary (length eq_list) (successful_models st) (failed_models st)]\<rparr>)"

text \<open>The engine of the repository, given the four SymPy stages.\<close>

definition repository_engine ::
  "('eq \<Rightarrow> expr list) \<Rightarrow> (expr \<Rightarrow> expr) \<Rightarrow> (expr \<Rightarrow> expr) \<Rightarrow> (expr \<Rightarrow> expr) \<Rightarrow>
   polynomial option \<Rightarrow> string list option \<Rightarrow> rat \<Rightarrow> 'eq engine" where
  "repository_engine sp_solve sp_together_expand sp_together sp_evalf target gens tol =
     \<lparr>solve = sp_solve, together_expand = sp_together_expand,
      rescale = (\<lambda>e. rescale_expression sp_together e target gens),
      drop_terms = (\<lambda>e. drop_small_terms e tol),
      round_expand = (\<lambda>e. expand_rational_expr (sp_evalf e))\<rparr>"

text \<open>
  Two small runs. In the first the equations are already solved (\<open>None\<close> has no solution)
  and the stages are those of the repository with tolerance \<open>10\<^sup>-\<^sup>6\<close>: the rows have no
  solution, the solution \<open>0\<close>, and the solution \<open>2x - y\<close>. In the second the dropping stage
  returns \<open>0\<close> for the row \<open>x\<close>.
\<close>

definition example_engine :: "expr option engine" where
  "example_engine =
     repository_engine (\<lambda>eq. case eq of None \<Rightarrow> [] | Some e \<Rightarrow> [e]) (\<lambda>e. e) (\<lambda>e. e) (\<lambda>e. e)
       None None (1 / 10 ^ 6)"

definition example_rows :: "expr option list" where
  "example_rows =
     [None, Some (Frac [] [(1, Exact, {#})]),
      Some (Frac [(2, Floating, {#''x''#}), (- 1, Floating, {#''y''#})] [(1, Exact, {#})])]"

definition dropping_engine :: "expr engine" where
  "dropping_engine =
     \<lparr>solve = (\<lambda>eq. [eq]), together_expand = (\<lambda>e. e), rescale = (\<lambda>e. e),
      drop_terms = (\<lambda>e. if e = Frac [(1, Exact, {#''x''#})] [(1, Exact, {#})] then Frac [] [(1, Exact, {#})] else e),
      round_expand = (\<lambda>e. e)\<rparr>"

text \<open>The stage at which a row ends, in the words of the specification.\<close>

datatype outcome = SolveFailure | ZeroNumerator | AllTermsDropped | Final

definition row_outcome :: "'eq engine \<Rightarrow> 'eq \<Rightarrow> outcome" where
  "row_outcome eng eq =
     (if solve eng eq = [] then SolveFailure
      else if numerator_is_zero (together_expand eng (hd (solve eng eq))) then ZeroNumerator
      else if numerator_is_zero
                (drop_terms eng (rescale eng (together_expand eng (hd (solve eng eq)))))
           then AllTermsDropped
      else Final)"

section \<open>Properties of the tokenizer\<close>

lemma in_order_Nil: "in_order [] s"
  unfolding in_order_def by (rule exI [of _ "[s]"]) simp

lemma in_order_single: "in_order [t] t"
  unfolding in_order_def by (rule exI [of _ "[[], []]"]) simp

lemma in_order_Cons: "in_order ts s \<Longrightarrow> in_order (t # ts) (t @ s)"
  unfolding in_order_def
proof -
  assume "\<exists>gaps. length gaps = Suc (length ts) \<and> interleave gaps ts = s"
  then obtain gaps where g: "length gaps = Suc (length ts)" "interleave gaps ts = s" by blast
  have "length ([] # gaps) = Suc (length (t # ts)) \<and> interleave ([] # gaps) (t # ts) = t @ s"
    using g by simp
  then show "\<exists>gaps. length gaps = Suc (length (t # ts)) \<and> interleave gaps (t # ts) = t @ s"
    by blast
qed

lemma interleave_gap_Cons: "interleave ((c # g) # gs) ts = c # interleave (g # gs) ts"
  by (cases ts) simp_all

lemma interleave_gap_append: "interleave ((p @ g) # gs) ts = p @ interleave (g # gs) ts"
  by (cases ts) simp_all

lemma in_order_skip: "in_order ts s \<Longrightarrow> in_order ts (p @ s)"
  unfolding in_order_def
proof -
  assume "\<exists>gaps. length gaps = Suc (length ts) \<and> interleave gaps ts = s"
  then obtain gaps where g: "length gaps = Suc (length ts)" "interleave gaps ts = s" by blast
  then obtain g0 gs where gg: "gaps = g0 # gs" by (cases gaps) auto
  have "length ((p @ g0) # gs) = Suc (length ts) \<and> interleave ((p @ g0) # gs) ts = p @ s"
    using g gg by (simp add: interleave_gap_append)
  then show "\<exists>gaps. length gaps = Suc (length ts) \<and> interleave gaps ts = p @ s" by blast
qed

lemma in_order_append:
  "in_order ts1 s1 \<Longrightarrow> in_order ts2 s2 \<Longrightarrow> in_order (ts1 @ ts2) (s1 @ s2)"
proof -
  have "\<And>gaps s1. length gaps = Suc (length ts1) \<Longrightarrow> interleave gaps ts1 = s1 \<Longrightarrow>
          in_order ts2 s2 \<Longrightarrow> in_order (ts1 @ ts2) (s1 @ s2)"
  proof (induction ts1)
    case Nil
    then obtain g where "gaps = [g]" by (cases gaps) auto
    with Nil show ?case by (simp add: in_order_skip)
  next
    case (Cons t ts1)
    then obtain g gs where gg: "gaps = g # gs" by (cases gaps) auto
    with Cons.prems have "length gs = Suc (length ts1)" and s1: "s1 = g @ t @ interleave gs ts1"
      by auto
    with Cons.IH [of gs "interleave gs ts1"] Cons.prems(3)
    have "in_order (ts1 @ ts2) (interleave gs ts1 @ s2)" by simp
    then have "in_order (t # ts1 @ ts2) (t @ interleave gs ts1 @ s2)"
      by (rule in_order_Cons)
    then have "in_order (t # ts1 @ ts2) (g @ t @ interleave gs ts1 @ s2)"
      by (rule in_order_skip)
    with s1 show ?case by simp
  qed
  then show "in_order ts1 s1 \<Longrightarrow> in_order ts2 s2 \<Longrightarrow> in_order (ts1 @ ts2) (s1 @ s2)"
    unfolding in_order_def [of ts1] by blast
qed

lemma findall_var_in_order: "in_order (findall_var s) s"
proof (induction s rule: findall_var.induct)
  case 1
  show ?case by (simp add: in_order_Nil)
next
  case (2 c cs)
  show ?case
  proof (cases "is_letter c")
    case True
    with 2 have "in_order (findall_var (dropWhile is_digit cs)) (dropWhile is_digit cs)" by simp
    then have "in_order ((c # takeWhile is_digit cs) # findall_var (dropWhile is_digit cs))
                 ((c # takeWhile is_digit cs) @ dropWhile is_digit cs)"
      by (rule in_order_Cons)
    with True show ?thesis by simp
  next
    case False
    with 2 have "in_order (findall_var cs) cs" by simp
    then have "in_order (findall_var cs) ([c] @ cs)" by (rule in_order_skip)
    with False show ?thesis by simp
  qed
qed

lemma match_suffix_prefix:
  assumes "match_suffix s = Some d"
  shows "take (length d) s = d \<and> 2 \<le> length d"
proof (cases "take 4 s = ''_dot''")
  case True
  with assms have "d = ''_dot''" by (simp add: match_suffix_def)
  moreover have "length ''_dot'' = 4" by simp
  ultimately show ?thesis using True by (simp only:) simp
next
  case False
  with assms have t: "take 2 s = ''_t''" and "d = ''_t''"
    by (simp_all add: match_suffix_def split: if_splits)
  moreover have "length ''_t'' = 2" by simp
  ultimately show ?thesis by (simp only:) simp
qed

lemma match_deriv_prefix:
  assumes "match_deriv s = Some (b, d)"
  shows "take (length b + length d) s = b @ d" and "3 \<le> length b + length d"
    and "length b + length d \<le> length s"
proof -
  from assms obtain c cs where s: "s = c # cs" and b: "b = c # takeWhile is_digit cs"
    and d: "match_suffix (dropWhile is_digit cs) = Some d"
    by (auto simp: match_deriv_def split: list.splits if_splits option.splits)
  from match_suffix_prefix [OF d]
  have t: "take (length d) (dropWhile is_digit cs) = d" and l: "2 \<le> length d" by simp_all
  have cs: "cs = takeWhile is_digit cs @ dropWhile is_digit cs" by simp
  have "take (length (takeWhile is_digit cs) + length d) cs
          = takeWhile is_digit cs @ take (length d) (dropWhile is_digit cs)"
    by (subst (2) cs) (simp del: takeWhile_dropWhile_id)
  with t s b show "take (length b + length d) s = b @ d" by simp
  from l b show "3 \<le> length b + length d" by simp
  have "length (take (length d) (dropWhile is_digit cs)) = length d"
    using t by simp
  then have "length d \<le> length (dropWhile is_digit cs)" by simp
  moreover have "length cs = length (takeWhile is_digit cs) + length (dropWhile is_digit cs)"
    by (subst cs) (simp del: takeWhile_dropWhile_id)
  ultimately show "length b + length d \<le> length s" using s b by simp
qed

lemma prefix_tokens:
  "(if p \<noteq> [] then tokens @ findall_var p else tokens) = tokens @ findall_var p"
  by simp

lemma parse_loop_in_order:
  "feature = pre @ s \<Longrightarrow> length pre = pos \<Longrightarrow> last_pos \<le> pos \<Longrightarrow>
   in_order tokens (take last_pos feature) \<Longrightarrow>
   parse_loop feature tokens last_pos (finditer_deriv pos s) = (tokens', last') \<Longrightarrow>
   in_order tokens' (take last' feature) \<and> last' \<le> length feature"
proof (induction pos s arbitrary: pre tokens last_pos rule: finditer_deriv.induct)
  case (1 pos)
  then show ?case by auto
next
  case (2 pos c cs)
  show ?case
  proof (cases "match_deriv (c # cs)")
    case None
    have "feature = (pre @ [c]) @ cs" using 2 by simp
    moreover have "length (pre @ [c]) = Suc pos" using 2 by simp
    moreover have "last_pos \<le> Suc pos" using 2 by simp
    moreover have "parse_loop feature tokens last_pos (finditer_deriv (Suc pos) cs) = (tokens', last')"
      using 2 None by simp
    ultimately show ?thesis using "2.IH"(1) [OF None] "2.prems"(4) by blast
  next
    case (Some bd)
    obtain b d where bd: "bd = (b, d)" by (cases bd)
    let ?n = "length b + length d"
    from match_deriv_prefix [OF Some [unfolded bd]]
    have tk: "take ?n (c # cs) = b @ d" and n3: "3 \<le> ?n" and nl: "?n \<le> length (c # cs)" by simp_all
    let ?prefix = "slice feature last_pos pos"
    let ?tokens2 = "tokens @ findall_var ?prefix @ [b @ d]"
    have dr: "drop (?n - 1) cs = drop ?n (c # cs)" using n3 by (cases ?n) simp_all
    have feat: "feature = (pre @ b @ d) @ drop ?n (c # cs)"
      using "2.prems"(1) tk by (metis append.assoc append_take_drop_id)
    have take_pos: "take pos feature = pre" using "2.prems" by simp
    have "take (pos + ?n) feature = pre @ take ?n (c # cs)" using "2.prems" by simp
    then have take_end: "take (pos + ?n) feature = pre @ b @ d" using tk by simp
    have "pre = take last_pos feature @ ?prefix"
    proof -
      have "take last_pos feature @ ?prefix = take pos feature"
        using "2.prems"(3) unfolding slice_def
        by (metis le_add_diff_inverse take_add)
      with take_pos show ?thesis by simp
    qed
    then have split: "take (pos + ?n) feature = take last_pos feature @ ?prefix @ (b @ d)"
      using take_end by simp
    have "in_order (findall_var ?prefix @ [b @ d]) (?prefix @ (b @ d))"
      by (rule in_order_append [OF findall_var_in_order in_order_single])
    from in_order_append [OF "2.prems"(4) this]
    have inv: "in_order ?tokens2 (take (pos + ?n) feature)"
      unfolding split by simp
    have step: "parse_loop feature ?tokens2 (pos + ?n) (finditer_deriv (pos + ?n) (drop (?n - 1) cs))
                  = (tokens', last')"
      using "2.prems"(5) Some bd by (simp add: Let_def prefix_tokens)
    have len: "length (pre @ b @ d) = pos + ?n" using "2.prems" by simp
    have f2: "feature = (pre @ b @ d) @ drop (?n - 1) cs" using feat dr by simp
    show ?thesis by (rule "2.IH"(2) [OF Some bd [symmetric] f2 len le_refl inv step])
  qed
qed

lemma parse_feature_in_order: "in_order (parse_feature s) s"
proof -
  obtain tokens last' where pl: "parse_loop s [] 0 (finditer_deriv 0 s) = (tokens, last')"
    by (cases "parse_loop s [] 0 (finditer_deriv 0 s)")
  from parse_loop_in_order [of s "[]" s 0 0 "[]" tokens last'] pl
  have io: "in_order tokens (take last' s)" and le: "last' \<le> length s"
    by (simp_all add: in_order_Nil)
  have "in_order (tokens @ findall_var (drop last' s)) (take last' s @ drop last' s)"
    by (rule in_order_append [OF io findall_var_in_order])
  then have a: "in_order (tokens @ findall_var (drop last' s)) s" by simp
  have b: "\<not> last' < length s \<Longrightarrow> in_order tokens s" using io le by simp
  show ?thesis
    unfolding parse_feature_def Let_def using pl a b
    by (simp add: findall_var_in_order)
qed

text \<open>
  Claim C5. The tokenizer maps \<open>x0x1x2_dot\<close> to \<open>(x0, x1, x2_dot)\<close>, \<open>x1x2_t\<close> to
  \<open>(x1, x2_t)\<close>, \<open>x0x1\<close> to \<open>(x0, x1)\<close> and \<open>1\<close> to the empty tuple; and for every input
  string the returned tokens are disjoint substrings of the input, in the order of their
  occurrence from left to right.
\<close>

theorem parse_feature_examples_and_order:
  "parse_feature ''x0x1x2_dot'' = [''x0'', ''x1'', ''x2_dot''] \<and>
   parse_feature ''x1x2_t'' = [''x1'', ''x2_t''] \<and>
   parse_feature ''x0x1'' = [''x0'', ''x1''] \<and>
   parse_feature ''1'' = [] \<and>
   (\<forall>s. in_order (parse_feature s) s)"
proof -
  have "parse_feature ''x0x1x2_dot'' = [''x0'', ''x1'', ''x2_dot'']" by code_simp
  moreover have "parse_feature ''x1x2_t'' = [''x1'', ''x2_t'']" by code_simp
  moreover have "parse_feature ''x0x1'' = [''x0'', ''x1'']" by code_simp
  moreover have "parse_feature ''1'' = []" by code_simp
  ultimately show ?thesis using parse_feature_in_order by blast
qed

section \<open>Properties of the equation assembly\<close>

lemma extract_loop_inv:
  "extract_loop fs (u, m) = (u', m') \<Longrightarrow>
   set u' = set u \<union> (\<Union>f\<in>set fs. set (parse_feature f)) \<and>
   (\<forall>f. m' f = (if f \<in> set fs then Some (parse_feature f) else m f))"
proof (induction fs arbitrary: u m)
  case Nil
  then show ?case by simp
next
  case (Cons feat fs)
  from Cons.prems
  have "extract_loop fs (List.union (parse_feature feat) u, m(feat \<mapsto> parse_feature feat)) = (u', m')"
    by (simp add: Let_def)
  from Cons.IH [OF this] show ?case by auto
qed

lemma extract_distinct_features_props:
  assumes "extract_distinct_features fs = (distinct_tokens, fmap)"
  shows "set distinct_tokens = (\<Union>f\<in>set fs. set (parse_feature f))"
    and "f \<in> set fs \<Longrightarrow> fmap f = Some (parse_feature f)"
proof -
  obtain u m where l: "extract_loop fs ([], Map.empty) = (u, m)"
    by (cases "extract_loop fs ([], Map.empty)")
  with assms have d: "distinct_tokens = sort u" and f: "fmap = m"
    by (simp_all add: extract_distinct_features_def)
  from extract_loop_inv [OF l] d f
  show "set distinct_tokens = (\<Union>f\<in>set fs. set (parse_feature f))"
    and "f \<in> set fs \<Longrightarrow> fmap f = Some (parse_feature f)" by simp_all
qed

lemma token_symbols_lookup:
  "map_of (map (\<lambda>tok. (tok, Sym tok)) toks) t = (if t \<in> set toks then Some (Sym t) else None)"
  by (induction toks) auto

lemma incr_count_value: "counts_value \<rho> (incr_count t kvs) = counts_value \<rho> kvs * \<rho> t"
  by (induction kvs) (auto simp: counts_value_def)

lemma incr_count_keys: "fst ` set (incr_count t kvs) = insert t (fst ` set kvs)"
  by (induction t kvs rule: incr_count.induct) auto

lemma counts_value_Nil: "counts_value \<rho> [] = 1"
  by (simp add: counts_value_def)

lemma fold_incr_count_value:
  "counts_value \<rho> (fold incr_count toks kvs) = counts_value \<rho> kvs * prod_list (map \<rho> toks)"
  by (induction toks arbitrary: kvs) (simp_all add: incr_count_value mult.assoc)

lemma fold_incr_count_keys: "fst ` set (fold incr_count toks kvs) = set toks \<union> fst ` set kvs"
  by (induction toks arbitrary: kvs) (simp_all add: incr_count_keys)

lemma power_terms_ok:
  "\<forall>k \<in> fst ` set kvs. syms k = Some (Sym k) \<Longrightarrow>
   \<exists>terms. power_terms kvs syms = Inr terms \<and>
     (\<forall>\<rho>. prod_list (map (eval \<rho>) terms) = counts_value \<rho> kvs)"
proof (induction kvs)
  case Nil
  then show ?case by (simp add: counts_value_def)
next
  case (Cons kv kvs)
  obtain k v where kv: "kv = (k, v)" by (cases kv)
  from Cons.prems kv have k: "syms k = Some (Sym k)" by simp
  from Cons obtain terms where t: "power_terms kvs syms = Inr terms"
    "\<forall>\<rho>. prod_list (map (eval \<rho>) terms) = counts_value \<rho> kvs" by auto
  show ?case using kv k t by (simp add: counts_value_def)
qed

lemma consolidate_product_ok:
  assumes "\<forall>t \<in> set toks. syms t = Some (Sym t)"
  shows "\<exists>p. consolidate_product toks syms = Inr p \<and> (\<forall>\<rho>. eval \<rho> p = prod_list (map \<rho> toks))"
proof -
  have "\<forall>k \<in> fst ` set (fold incr_count toks []). syms k = Some (Sym k)"
    using assms by (simp add: fold_incr_count_keys)
  from power_terms_ok [OF this] obtain terms where
    t: "power_terms (fold incr_count toks []) syms = Inr terms"
       "\<forall>\<rho>. prod_list (map (eval \<rho>) terms) = counts_value \<rho> (fold incr_count toks [])" by blast
  have "\<forall>\<rho>. eval \<rho> (MulN terms) = prod_list (map \<rho> toks)"
    using t(2) by (simp add: fold_incr_count_value counts_value_Nil)
  with t(1) show ?thesis by (simp add: consolidate_product_def)
qed

lemma known_features:
  assumes "extract_distinct_features fs = (distinct_tokens, fmap)"
  shows "known fmap (map_of (map (\<lambda>tok. (tok, Sym tok)) distinct_tokens)) fs"
  unfolding known_def token_symbols_lookup
  using extract_distinct_features_props [OF assms] by auto

lemma sum_terms_ok:
  assumes "known fmap syms fs"
  shows "\<forall>j \<in> set js. j < length fs \<and> i < nrows M \<and> j < ncols M \<Longrightarrow>
    \<exists>r. sum_terms M fmap syms fs i js acc = Inr r \<and>
      (\<forall>\<rho>. eval \<rho> r = eval \<rho> acc + sum_list (map (\<lambda>j. entry M i j * feature_value \<rho> (fs ! j)) js))"
proof (induction js arbitrary: acc)
  case Nil
  then show ?case by simp
next
  case (Cons j js)
  from Cons.prems have j: "j < length fs" "i < nrows M" "j < ncols M" by simp_all
  from assms nth_mem [OF j(1)] have fm: "fmap (fs ! j) = Some (parse_feature (fs ! j))"
    and "\<forall>t \<in> set (parse_feature (fs ! j)). syms t = Some (Sym t)"
    unfolding known_def by blast+
  from consolidate_product_ok [OF this(2)] obtain p where
    p: "consolidate_product (parse_feature (fs ! j)) syms = Inr p"
       "\<forall>\<rho>. eval \<rho> p = prod_list (map \<rho> (parse_feature (fs ! j)))" by blast
  from Cons.prems have "\<forall>j \<in> set js. j < length fs \<and> i < nrows M \<and> j < ncols M" by simp
  from Cons.IH [OF this, of "Add acc (Mul (Num (entry M i j)) p)"] obtain r where
    r: "sum_terms M fmap syms fs i js (Add acc (Mul (Num (entry M i j)) p)) = Inr r"
       "\<forall>\<rho>. eval \<rho> r = eval \<rho> (Add acc (Mul (Num (entry M i j)) p))
              + sum_list (map (\<lambda>j. entry M i j * feature_value \<rho> (fs ! j)) js)" by blast
  have "sum_terms M fmap syms fs i (j # js) acc = Inr r"
    using j fm p(1) r(1) by (simp add: getitem_def entry_def)
  moreover have "\<forall>\<rho>. eval \<rho> r = eval \<rho> acc
      + sum_list (map (\<lambda>j. entry M i j * feature_value \<rho> (fs ! j)) (j # js))"
    using r(2) p(2) by (simp add: feature_value_def)
  ultimately show ?case by blast
qed

lemma sum_terms_fail:
  assumes "known fmap syms fs"
  shows "\<forall>j \<in> set js. j < length fs \<Longrightarrow> \<exists>j \<in> set js. \<not> (i < nrows M \<and> j < ncols M) \<Longrightarrow>
    sum_terms M fmap syms fs i js acc = Inl IndexError"
proof (induction js arbitrary: acc)
  case Nil
  then show ?case by simp
next
  case (Cons j js)
  show ?case
  proof (cases "i < nrows M \<and> j < ncols M")
    case False
    then show ?thesis by (auto simp: getitem_def)
  next
    case True
    from Cons.prems have j: "j < length fs" by simp
    from assms nth_mem [OF j] have fm: "fmap (fs ! j) = Some (parse_feature (fs ! j))"
      and "\<forall>t \<in> set (parse_feature (fs ! j)). syms t = Some (Sym t)"
      unfolding known_def by blast+
    from consolidate_product_ok [OF this(2)] obtain p where
      p: "consolidate_product (parse_feature (fs ! j)) syms = Inr p" by blast
    from Cons.prems True have "\<forall>j \<in> set js. j < length fs"
      and "\<exists>j \<in> set js. \<not> (i < nrows M \<and> j < ncols M)" by auto
    from Cons.IH [OF this] show ?thesis using True fm p by (simp add: getitem_def)
  qed
qed

lemma concat_nth_rect:
  "list_all (\<lambda>r. length r = n) rows \<Longrightarrow> i < length rows \<Longrightarrow> j < n \<Longrightarrow>
   concat rows ! (i * n + j) = rows ! i ! j"
proof (induction rows arbitrary: i)
  case Nil
  then show ?case by simp
next
  case (Cons r rows)
  show ?case
  proof (cases i)
    case 0
    with Cons.prems show ?thesis by (simp add: nth_append)
  next
    case (Suc k)
    with Cons.prems have "concat rows ! (k * n + j) = rows ! k ! j"
      by (intro Cons.IH) simp_all
    moreover have "(r @ concat rows) ! (n + (k * n + j)) = concat rows ! (k * n + j)"
      using Cons.prems by (simp add: nth_append)
    ultimately show ?thesis using Suc by (simp add: add.assoc)
  qed
qed

lemma sp_Matrix_square:
  assumes "square n rows"
  shows "\<exists>M. sp_Matrix rows = Inr M \<and> nrows M = n \<and> ncols M = n \<and>
           (\<forall>i<n. \<forall>j<n. entry M i j = rows ! i ! j)"
proof (cases "rows = []")
  case True
  with assms show ?thesis by (simp add: square_def sp_Matrix_def)
next
  case False
  with assms have hd: "length (hd rows) = n"
    by (cases rows) (simp_all add: square_def)
  with assms have "sp_Matrix rows = Inr \<lparr>nrows = n, ncols = n, flat = concat rows\<rparr>"
    using False by (simp add: square_def sp_Matrix_def)
  moreover have "\<forall>i<n. \<forall>j<n. concat rows ! (i * n + j) = rows ! i ! j"
    using assms concat_nth_rect [of n rows] by (simp add: square_def)
  ultimately show ?thesis by (simp add: entry_def)
qed

lemma sum_list_upt: "sum_list (map f [0..<n]) = (\<Sum>j<n. f j)"
  by (simp add: interv_sum_list_conv_sum_set_nat atLeast0LessThan)

lemma sum_terms_range_ok:
  assumes "known fmap syms fs" and "i < nrows M" and "length fs \<le> ncols M"
  shows "\<exists>r. sum_terms M fmap syms fs i [0..<length fs] (Num 0) = Inr r \<and>
      (\<forall>\<rho>. eval \<rho> r = (\<Sum>j<length fs. entry M i j * feature_value \<rho> (fs ! j)))"
proof -
  have "\<forall>j \<in> set [0..<length fs]. j < length fs \<and> i < nrows M \<and> j < ncols M"
    using assms(2,3) by auto
  from sum_terms_ok [OF assms(1) this, of "Num 0"] show ?thesis
    by (simp add: sum_list_upt)
qed

lemma sum_terms_range_fail:
  assumes "known fmap syms fs" and "fs \<noteq> []" and "\<not> (i < nrows M \<and> length fs \<le> ncols M)"
  shows "sum_terms M fmap syms fs i [0..<length fs] acc = Inl IndexError"
proof -
  have "\<exists>j \<in> set [0..<length fs]. \<not> (i < nrows M \<and> j < ncols M)"
  proof (cases "i < nrows M")
    case False
    with assms(2) show ?thesis by (intro bexI [of _ 0]) auto
  next
    case True
    with assms(3) have "ncols M < length fs" by simp
    then show ?thesis by (intro bexI [of _ "ncols M"]) auto
  qed
  moreover have "\<forall>j \<in> set [0..<length fs]. j < length fs" by simp
  ultimately show ?thesis using sum_terms_fail [OF assms(1)] by blast
qed

lemma build_rows_ok:
  assumes "known fmap syms fs" and "length fs \<le> ncols L" and "length fs \<le> ncols R"
  shows "\<forall>i \<in> set is. i < nrows L \<and> i < nrows R \<Longrightarrow>
     \<exists>rows. build_rows L R fmap syms fs (length fs) is eqs = Inr (eqs @ rows) \<and>
       list_all2 (row_value L R fs) is rows"
proof (induction "is" arbitrary: eqs)
  case Nil
  then show ?case by simp
next
  case (Cons i "is")
  from Cons.prems have i: "i < nrows L" "i < nrows R" by simp_all
  from sum_terms_range_ok [OF assms(1) i(1) assms(2)] obtain lhs where
    lhs: "sum_terms L fmap syms fs i [0..<length fs] (Num 0) = Inr lhs"
         "\<forall>\<rho>. eval \<rho> lhs = (\<Sum>j<length fs. entry L i j * feature_value \<rho> (fs ! j))" by blast
  from sum_terms_range_ok [OF assms(1) i(2) assms(3)] obtain rhs where
    rhs: "sum_terms R fmap syms fs i [0..<length fs] (Num 0) = Inr rhs"
         "\<forall>\<rho>. eval \<rho> rhs = (\<Sum>j<length fs. entry R i j * feature_value \<rho> (fs ! j))" by blast
  from Cons.prems have "\<forall>i \<in> set is. i < nrows L \<and> i < nrows R" by simp
  from Cons.IH [OF this, of "eqs @ [sp_Eq (Sub lhs rhs) (Num 0)]"] obtain rows where
    rows: "build_rows L R fmap syms fs (length fs) is (eqs @ [sp_Eq (Sub lhs rhs) (Num 0)])
             = Inr ((eqs @ [sp_Eq (Sub lhs rhs) (Num 0)]) @ rows)"
          "list_all2 (row_value L R fs) is rows" by blast
  have "row_value L R fs i (sp_Eq (Sub lhs rhs) (Num 0))"
    unfolding row_value_def using lhs(2) rhs(2) by blast
  with rows lhs(1) rhs(1)
  have "build_rows L R fmap syms fs (length fs) (i # is) eqs
          = Inr (eqs @ (sp_Eq (Sub lhs rhs) (Num 0) # rows)) \<and>
        list_all2 (row_value L R fs) (i # is) (sp_Eq (Sub lhs rhs) (Num 0) # rows)"
    by simp
  then show ?case by blast
qed

lemma build_rows_fail:
  assumes "known fmap syms fs" and "fs \<noteq> []"
  shows "\<exists>i \<in> set is. \<not> (i < nrows L \<and> length fs \<le> ncols L \<and> i < nrows R \<and> length fs \<le> ncols R) \<Longrightarrow>
     build_rows L R fmap syms fs (length fs) is eqs = Inl IndexError"
proof (induction "is" arbitrary: eqs)
  case Nil
  then show ?case by simp
next
  case (Cons i "is")
  show ?case
  proof (cases "i < nrows L \<and> length fs \<le> ncols L")
    case False
    from sum_terms_range_fail [OF assms False] show ?thesis by simp
  next
    case L: True
    then obtain lhs where lhs: "sum_terms L fmap syms fs i [0..<length fs] (Num 0) = Inr lhs"
      using sum_terms_range_ok [OF assms(1), of i L] by blast
    show ?thesis
    proof (cases "i < nrows R \<and> length fs \<le> ncols R")
      case False
      from sum_terms_range_fail [OF assms False] lhs show ?thesis by simp
    next
      case True
      then obtain rhs where rhs: "sum_terms R fmap syms fs i [0..<length fs] (Num 0) = Inr rhs"
        using sum_terms_range_ok [OF assms(1), of i R] by blast
      from Cons.prems L True
      have "\<exists>i \<in> set is. \<not> (i < nrows L \<and> length fs \<le> ncols L \<and> i < nrows R \<and> length fs \<le> ncols R)"
        by auto
      from Cons.IH [OF this] lhs rhs show ?thesis by simp
    qed
  qed
qed

lemma identity_entry:
  "i < length fs \<Longrightarrow> j < length fs \<Longrightarrow>
   generate_identity_matrix fs ! i ! j = (if i = j then 1 else 0)"
  by (simp add: generate_identity_matrix_def)

lemma generate_unfold:
  assumes "extract_distinct_features fs = (distinct_tokens, fmap)"
    and "sp_Matrix left_coeff = Inr L" and "sp_Matrix right_coeff = Inr R"
  shows "generate_symbolic_equations_both_sides fs left_coeff right_coeff =
     (case build_rows L R fmap (map_of (map (\<lambda>tok. (tok, Sym tok)) distinct_tokens)) fs
             (length fs) [0..<length fs] [] of
        Inl e \<Rightarrow> Inl e
      | Inr eq_list \<Rightarrow> Inr (eq_list, map_of (map (\<lambda>tok. (tok, Sym tok)) distinct_tokens)))"
  using assms by (simp add: generate_symbolic_equations_both_sides_def Let_def)

lemma sp_Matrix_entry:
  assumes "sp_Matrix rows = Inr M" and "i < nrows M" and "j < ncols M"
  shows "entry M i j = rows ! i ! j"
proof -
  from assms(1) have all: "list_all (\<lambda>r. length r = length (hd rows)) rows"
    and M: "M = \<lparr>nrows = length rows, ncols = (if rows = [] then 0 else length (hd rows)),
                 flat = concat rows\<rparr>"
    by (auto simp: sp_Matrix_def split: if_splits)
  from M assms(2) have i: "i < length rows" by simp
  then have ne: "rows \<noteq> []" by auto
  with M assms(3) have j: "j < length (hd rows)" and nc: "ncols M = length (hd rows)" by simp_all
  from concat_nth_rect [OF all i j] M nc show ?thesis by (simp add: entry_def)
qed

text \<open>
  The rows of a successful assembly. When both matrices have at least \<open>n = len(features)\<close>
  rows and columns, the assembly returns \<open>n\<close> rows, and row \<open>i\<close> is what
  \<open>sp.Eq(lhs\<^sub>i - rhs\<^sub>i, 0)\<close> returns, where the value of \<open>lhs\<^sub>i\<close> is
  \<open>\<Sum>\<^sub>j\<^sub><\<^sub>n L[i,j] \<cdot> monomial(feature\<^sub>j)\<close> and the value of \<open>rhs\<^sub>i\<close> is
  \<open>\<Sum>\<^sub>j\<^sub><\<^sub>n R[i,j] \<cdot> monomial(feature\<^sub>j)\<close>: only the top-left \<open>n \<times> n\<close> block of a larger matrix
  is read.
\<close>

lemma assembled_rows:
  assumes L: "sp_Matrix left_coeff = Inr L" and R: "sp_Matrix right_coeff = Inr R"
    and bigL: "\<not> too_small (length fs) L" and bigR: "\<not> too_small (length fs) R"
  shows "\<exists>eq_list syms.
     generate_symbolic_equations_both_sides fs left_coeff right_coeff = Inr (eq_list, syms) \<and>
     length eq_list = length fs \<and>
     (\<forall>i<length fs. assembled_row left_coeff right_coeff fs i (eq_list ! i))"
proof -
  let ?n = "length fs"
  obtain distinct_tokens fmap where ex: "extract_distinct_features fs = (distinct_tokens, fmap)"
    by (cases "extract_distinct_features fs")
  let ?syms = "map_of (map (\<lambda>tok. (tok, Sym tok)) distinct_tokens)"
  have kn: "known fmap ?syms fs" by (rule known_features [OF ex])
  have cols: "?n \<le> ncols L" "?n \<le> ncols R" and rws: "\<forall>i \<in> set [0..<?n]. i < nrows L \<and> i < nrows R"
    using bigL bigR by (auto simp: too_small_def)
  from build_rows_ok [OF kn cols rws, of "[]"] obtain rows where
    rows: "build_rows L R fmap ?syms fs ?n [0..<?n] [] = Inr rows"
          "list_all2 (row_value L R fs) [0..<?n] rows" by auto
  have gen: "generate_symbolic_equations_both_sides fs left_coeff right_coeff = Inr (rows, ?syms)"
    using generate_unfold [OF ex L R] rows(1) by simp
  have len: "length rows = ?n" using rows(2) by (auto dest: list_all2_lengthD)
  have row: "assembled_row left_coeff right_coeff fs i (rows ! i)" if i: "i < ?n" for i
  proof -
    have "i < length [0..<?n]" using i by simp
    from list_all2_nthD [OF rows(2) this]
    have "row_value L R fs ([0..<?n] ! i) (rows ! i)" .
    with i have "row_value L R fs i (rows ! i)" by simp
    then obtain lhs rhs where eq: "rows ! i = sp_Eq (Sub lhs rhs) (Num 0)"
      and lhs: "\<forall>\<rho>. eval \<rho> lhs = (\<Sum>j<?n. entry L i j * feature_value \<rho> (fs ! j))"
      and rhs: "\<forall>\<rho>. eval \<rho> rhs = (\<Sum>j<?n. entry R i j * feature_value \<rho> (fs ! j))"
      unfolding row_value_def by blast
    have eL: "entry L i j = left_coeff ! i ! j" if "j < ?n" for j
      using that i cols(1) rws by (intro sp_Matrix_entry [OF L]) auto
    have eR: "entry R i j = right_coeff ! i ! j" if "j < ?n" for j
      using that i cols(2) rws by (intro sp_Matrix_entry [OF R]) auto
    have "eval \<rho> lhs = (\<Sum>j<?n. left_coeff ! i ! j * feature_value \<rho> (fs ! j))" for \<rho>
      using lhs eL by simp
    moreover have "eval \<rho> rhs = (\<Sum>j<?n. right_coeff ! i ! j * feature_value \<rho> (fs ! j))" for \<rho>
      using rhs eR by simp
    ultimately show ?thesis unfolding assembled_row_def using eq by blast
  qed
  from gen len row show ?thesis by blast
qed

text \<open>With the identity matrix on the left, the left sum of row \<open>i\<close> is the monomial of
  feature \<open>i\<close>.\<close>

lemma identity_left_sum:
  assumes "i < length fs"
  shows "(\<Sum>j<length fs. generate_identity_matrix fs ! i ! j * feature_value \<rho> (fs ! j))
           = feature_value \<rho> (fs ! i)"
proof -
  have "(\<Sum>j<length fs. generate_identity_matrix fs ! i ! j * feature_value \<rho> (fs ! j))
          = (\<Sum>j<length fs. if i = j then feature_value \<rho> (fs ! j) else 0)"
    using assms by (intro sum.cong) (simp_all add: identity_entry)
  also have "\<dots> = feature_value \<rho> (fs ! i)" using assms by simp
  finally show ?thesis .
qed


text \<open>
  Claim C8, as amended. The assembly step has no dimension check. For rectangular
  matrices and \<open>n = len(features)\<close> it raises \<open>IndexError\<close> exactly when \<open>n > 0\<close> and one of
  the two matrices has fewer than \<open>n\<close> rows or fewer than \<open>n\<close> columns; otherwise, also when
  a matrix has more than \<open>n\<close> rows or columns, it returns \<open>n\<close> rows, and row \<open>i\<close> is what
  \<open>sp.Eq(lhs\<^sub>i - rhs\<^sub>i, 0)\<close> returns for the sums \<open>lhs\<^sub>i\<close> and \<open>rhs\<^sub>i\<close> over the entries
  \<open>[i, j]\<close> with \<open>j < n\<close>, that is, over the top-left \<open>n \<times> n\<close> block.
\<close>

theorem assembly_fails_iff_too_small:
  assumes "sp_Matrix left_coeff = Inr L" and "sp_Matrix right_coeff = Inr R"
  shows "if fs \<noteq> [] \<and> (too_small (length fs) L \<or> too_small (length fs) R)
         then generate_symbolic_equations_both_sides fs left_coeff right_coeff = Inl IndexError
         else \<exists>eq_list syms.
                generate_symbolic_equations_both_sides fs left_coeff right_coeff = Inr (eq_list, syms) \<and>
                length eq_list = length fs \<and>
                (\<forall>i<length fs. assembled_row left_coeff right_coeff fs i (eq_list ! i))"
proof -
  let ?n = "length fs"
  obtain distinct_tokens fmap where ex: "extract_distinct_features fs = (distinct_tokens, fmap)"
    by (cases "extract_distinct_features fs")
  let ?syms = "map_of (map (\<lambda>tok. (tok, Sym tok)) distinct_tokens)"
  have kn: "known fmap ?syms fs" by (rule known_features [OF ex])
  note gen = generate_unfold [OF ex assms]
  show ?thesis
  proof (cases "fs \<noteq> [] \<and> (too_small ?n L \<or> too_small ?n R)")
    case True
    then have ne: "fs \<noteq> []" by simp
    have "\<exists>i \<in> set [0..<?n]. \<not> (i < nrows L \<and> ?n \<le> ncols L \<and> i < nrows R \<and> ?n \<le> ncols R)"
    proof (cases "?n \<le> ncols L \<and> ?n \<le> ncols R")
      case False
      with ne show ?thesis by (intro bexI [of _ 0]) auto
    next
      case c: True
      with True have "nrows L < ?n \<or> nrows R < ?n" by (auto simp: too_small_def)
      then have "min (nrows L) (nrows R) < ?n" by auto
      then show ?thesis by (intro bexI [of _ "min (nrows L) (nrows R)"]) auto
    qed
    from build_rows_fail [OF kn ne this] gen True show ?thesis by simp
  next
    case False
    then have "\<not> too_small ?n L" and "\<not> too_small ?n R" by (auto simp: too_small_def)
    from assembled_rows [OF assms this] show ?thesis unfolding if_not_P [OF False] .
  qed
qed

text \<open>
  Claim C8 as stated fails: one feature with two \<open>2 \<times> 2\<close> matrices is a dimensional
  mismatch, and the assembly returns normally (it reads the entry \<open>[0, 0]\<close> only).
\<close>

theorem assembly_accepts_oversized_matrices:
  "length [''x0''] \<noteq> length [[1, 0], [0, 1::rat]] \<and>
   \<not> isl (generate_symbolic_equations_both_sides [''x0''] [[1, 0], [0, 1]] [[1, 0], [0, 1]])"
  by code_simp

theorem assembly_fails_iff_too_small_witness:
  "generate_symbolic_equations_both_sides [''x0'', ''x1''] [[1, 0]] [[1, 0], [0, 1]]
     = Inl IndexError \<and>
   (\<exists>eq_list syms.
      generate_symbolic_equations_both_sides [''x0''] [[1, 5], [7, 1]] [[3, 0], [0, 1]]
        = Inr (eq_list, syms) \<and> length eq_list = 1 \<and>
      (\<exists>lhs rhs. eq_list ! 0 = sp_Eq (Sub lhs rhs) (Num 0) \<and>
         (\<forall>\<rho>. eval \<rho> lhs = \<rho> ''x0'') \<and> (\<forall>\<rho>. eval \<rho> rhs = 3 * \<rho> ''x0'')))"
proof -
  have m1: "sp_Matrix [[1, 0]] = Inr \<lparr>nrows = 1, ncols = 2, flat = [1, 0]\<rparr>"
    by (simp add: sp_Matrix_def)
  have m2: "sp_Matrix [[1, 0], [0, 1]] = Inr \<lparr>nrows = 2, ncols = 2, flat = [1, 0, 0, 1]\<rparr>"
    by (simp add: sp_Matrix_def)
  have m3: "sp_Matrix [[1, 5], [7, 1]] = Inr \<lparr>nrows = 2, ncols = 2, flat = [1, 5, 7, 1]\<rparr>"
    by (simp add: sp_Matrix_def)
  have m4: "sp_Matrix [[3, 0], [0, 1]] = Inr \<lparr>nrows = 2, ncols = 2, flat = [3, 0, 0, 1]\<rparr>"
    by (simp add: sp_Matrix_def)
  have p: "parse_feature ''x0'' = [''x0'']" by code_simp
  from assembly_fails_iff_too_small [OF m1 m2, of "[''x0'', ''x1'']"]
  have a: "generate_symbolic_equations_both_sides [''x0'', ''x1''] [[1, 0]] [[1, 0], [0, 1]]
     = Inl IndexError" by (simp add: too_small_def)
  from assembly_fails_iff_too_small [OF m3 m4, of "[''x0'']"]
  have b: "\<exists>eq_list syms.
      generate_symbolic_equations_both_sides [''x0''] [[1, 5], [7, 1]] [[3, 0], [0, 1]]
        = Inr (eq_list, syms) \<and> length eq_list = 1 \<and>
      (\<exists>lhs rhs. eq_list ! 0 = sp_Eq (Sub lhs rhs) (Num 0) \<and>
         (\<forall>\<rho>. eval \<rho> lhs = \<rho> ''x0'') \<and> (\<forall>\<rho>. eval \<rho> rhs = 3 * \<rho> ''x0''))"
    by (simp add: too_small_def assembled_row_def feature_value_def p)
  from a b show ?thesis by blast
qed

section \<open>Properties of drop\_small\_terms\<close>

lemma filter_loop_eq:
  "filter_loop tol ts acc = acc @ filter (\<lambda>t. is_number (fst t) \<and> fst t \<noteq> 0 \<and> tol < \<bar>fst t\<bar>) ts"
  by (induction ts arbitrary: acc)
     (simp_all add: as_coeff_Mul_def is_zero_def evalf_def split: prod.splits)

lemma filter_terms_eq:
  "filter_terms tol ts = filter (\<lambda>t. is_number (fst t) \<and> fst t \<noteq> 0 \<and> tol < \<bar>fst t\<bar>) ts"
  by (simp add: filter_terms_def filter_loop_eq)

lemma fold_max_props:
  fixes key :: "'a \<Rightarrow> rat"
  shows "fold (\<lambda>x best. if key best < key x then x else best) xs b \<in> insert b (set xs) \<and>
   key b \<le> key (fold (\<lambda>x best. if key best < key x then x else best) xs b) \<and>
   (\<forall>x \<in> set xs. key x \<le> key (fold (\<lambda>x best. if key best < key x then x else best) xs b))"
proof (induction xs arbitrary: b)
  case Nil
  show ?case by simp
next
  case (Cons x xs)
  let ?f = "\<lambda>x best. if key best < key x then x else best"
  show ?case
  proof (cases "key b < key x")
    case True
    from Cons [of x] have m: "fold ?f xs x \<in> insert x (set xs)"
      and l: "key x \<le> key (fold ?f xs x)"
      and a: "\<forall>y \<in> set xs. key y \<le> key (fold ?f xs x)" by blast+
    from True l have "key b \<le> key (fold ?f xs x)" by linarith
    with True m l a show ?thesis by simp
  next
    case False
    from Cons [of b] have m: "fold ?f xs b \<in> insert b (set xs)"
      and l: "key b \<le> key (fold ?f xs b)"
      and a: "\<forall>y \<in> set xs. key y \<le> key (fold ?f xs b)" by blast+
    from False l have "key x \<le> key (fold ?f xs b)" by linarith
    with False m l a show ?thesis by auto
  qed
qed

lemma py_max_props:
  fixes key :: "'a \<Rightarrow> rat"
  assumes "xs \<noteq> []"
  shows "py_max key xs \<in> set xs" and "\<forall>x \<in> set xs. key x \<le> key (py_max key xs)"
proof -
  from assms obtain y ys where xs: "xs = y # ys" by (cases xs) auto
  from fold_max_props [of key ys y] xs
  show "py_max key xs \<in> set xs" and "\<forall>x \<in> set xs. key x \<le> key (py_max key xs)"
    by (simp_all add: py_max_def)
qed

lemma as_ordered_terms_nonempty: "as_ordered_terms p \<noteq> []"
  by (simp add: as_ordered_terms_def)

lemma retained_terms_cases:
  "(filter_terms tol (as_ordered_terms p) \<noteq> [] \<longrightarrow>
      retained_terms tol p = filter_terms tol (as_ordered_terms p)) \<and>
   (filter_terms tol (as_ordered_terms p) = [] \<longrightarrow>
      retained_terms tol p = [py_max magnitude (as_ordered_terms p)])"
  by (simp add: retained_terms_def Let_def as_ordered_terms_nonempty)

lemma retained_terms_nonempty: "retained_terms tol p \<noteq> []"
  using retained_terms_cases [of tol p] by (cases "filter_terms tol (as_ordered_terms p) = []") auto

lemma magnitude_eq: "magnitude t = \<bar>fst t\<bar>"
  by (simp add: magnitude_def as_coeff_Mul_def evalf_def)

lemma retained_fallback:
  assumes "filter_terms tol (as_ordered_terms p) = []"
  shows "\<exists>t. retained_terms tol p = [t] \<and> t \<in> set (as_ordered_terms p) \<and>
           (\<forall>u \<in> set (as_ordered_terms p). \<bar>fst u\<bar> \<le> \<bar>fst t\<bar>)"
proof -
  let ?t = "py_max magnitude (as_ordered_terms p)"
  from py_max_props [OF as_ordered_terms_nonempty, where key = magnitude and p1 = p]
  have "?t \<in> set (as_ordered_terms p)" and "\<forall>u \<in> set (as_ordered_terms p). \<bar>fst u\<bar> \<le> \<bar>fst ?t\<bar>"
    by (simp_all add: magnitude_eq)
  moreover have "retained_terms tol p = [?t]" using assms retained_terms_cases by blast
  ultimately show ?thesis by blast
qed

text \<open>A side with a non-zero coefficient stays non-zero.\<close>

lemma cleaned_nonzero:
  assumes "\<exists>t \<in> set p. fst t \<noteq> 0"
  shows "cleaned tol p \<noteq> []"
proof -
  from assms have ne: "p \<noteq> []" by auto
  then have ao: "as_ordered_terms p = p" by (simp add: as_ordered_terms_def)
  show ?thesis
  proof (cases "filter_terms tol p = []")
    case False
    then obtain t where "t \<in> set (filter_terms tol p)" by (cases "filter_terms tol p") auto
    then have "t \<in> set (filter_terms tol p)" and "fst t \<noteq> 0" by (auto simp: filter_terms_eq)
    moreover have "retained_terms tol p = filter_terms tol p"
      using False retained_terms_cases [of tol p] ao by simp
    ultimately have "t \<in> set (cleaned tol p)" by (simp add: cleaned_def expand_def sp_Add_def)
    then show ?thesis by auto
  next
    case True
    with retained_fallback [of tol p] ao obtain t where
      t: "retained_terms tol p = [t]" "\<forall>u \<in> set p. \<bar>fst u\<bar> \<le> \<bar>fst t\<bar>" by auto
    from assms t(2) have "fst t \<noteq> 0" by auto
    with t(1) show ?thesis by (simp add: cleaned_def expand_def sp_Add_def)
  qed
qed

text \<open>Numbers: the integer one is neutral, and an exact number is its numerator over its
  denominator.\<close>

lemma num_mul_one: "num_mul x (1, Exact) = x"
  by (cases x) (simp add: num_mul_def)

lemma num_inv_one: "num_inv (1, Exact) = (1, Exact)"
  by (simp add: num_inv_def)

lemma num_div_one: "num_div x (1, Exact) = x"
  by (simp add: num_div_def)

lemma scale_one: "scale (1, Exact) p = p"
  by (induction p) (auto simp: scale_def num_mul_one)

lemma length_scale: "length (scale r p) = length p"
  by (simp add: scale_def)

lemma denom_pos: "0 < denom v"
  using quotient_of_denom_pos' [of v] by (simp add: denom_def)

lemma numer_over_denom: "numer v / denom v = v"
proof -
  obtain p q where pq: "quotient_of v = (p, q)" by (cases "quotient_of v")
  from quotient_of_div [OF pq] pq show ?thesis by (simp add: numer_def denom_def)
qed

lemma quotient_of_of_int: "quotient_of (of_int p) = (p, 1)"
  by (simp add: of_int_rat quotient_of_Fract)

lemma numer_of_numer: "numer (numer v) = numer v" and denom_of_numer: "denom (numer v) = 1"
  by (simp_all add: numer_def denom_def quotient_of_of_int)

lemma quotient_of_inverse_int:
  assumes "0 < q"
  shows "quotient_of (1 / of_int q) = (1, q)"
proof -
  have "(1 :: rat) / of_int q = Fract 1 q" by (simp add: Fract_of_int_quotient)
  with assms show ?thesis by (simp add: quotient_of_Fract Rat.normalize_def)
qed

lemma numer_inverse_denom: "numer (1 / denom v) = 1" and denom_inverse_denom: "denom (1 / denom v) = denom v"
proof -
  have "0 < snd (quotient_of v)" by (rule quotient_of_denom_pos')
  from quotient_of_inverse_int [OF this]
  show "numer (1 / denom v) = 1" and "denom (1 / denom v) = denom v"
    by (simp_all add: numer_def denom_def)
qed

lemma exact_quotient_mul: "num_mul (numer v, Exact) (num_inv (denom v, Exact)) = (v, Exact)"
  using numer_over_denom [of v] by (simp add: num_mul_def num_inv_def)

lemma exact_quotient_div: "num_div (numer v, Exact) (denom v, Exact) = (v, Exact)"
proof (cases "denom v = 1")
  case True
  with numer_over_denom [of v] show ?thesis by (simp add: num_div_def)
next
  case False
  then show ?thesis by (simp add: num_div_def exact_quotient_mul)
qed

text \<open>The rounding on some numbers: the 53-bit numbers nearest to \<open>1/10\<close> and \<open>1/3\<close> (the
  Python floats \<open>0.1\<close> and \<open>1/3\<close>), numbers of 53 bits left as they are, and ties to even.\<close>

lemma fl_examples:
  "fl (1 / 10) = 3602879701896397 / 2 ^ 55 \<and> fl (1 / 3) = 6004799503160661 / 2 ^ 54 \<and>
   fl 1 = 1 \<and> fl (- 5 / 2) = - 5 / 2 \<and> fl (3602879701896397 / 2 ^ 55) = 3602879701896397 / 2 ^ 55 \<and>
   fl (2 ^ 53 + 1) = 2 ^ 53 \<and> fl (2 ^ 53 + 3) = 2 ^ 53 + 4"
  by code_simp

lemma cancel_twice: "(k - m) - (m - k) = k - (m :: 'a multiset)"
  by (rule multiset_eqI) simp

text \<open>The cases of \<open>sp_div\<close>.\<close>

lemma sp_div_zero: "d \<noteq> [] \<Longrightarrow> sp_div [] d = Frac [] [(1, Exact, {#})]"
  by (simp add: sp_div_def)

lemma sp_div_single_single:
  "sp_div [(a, ka, k)] [(c, kc, m)] =
     (let q = (if k = {#} \<and> m = {#} then num_div (a, ka) (c, kc)
               else num_mul (a, ka) (num_inv (c, kc)))
      in if snd q = Exact
         then Frac [(numer (fst q), Exact, k - m)] [(denom (fst q), Exact, m - k)]
         else Frac [(fst q, Floating, k - m)] [(1, Exact, m - k)])"
  by (simp add: sp_div_def)

lemma sp_div_multi_single:
  "sp_div (x # y # ys) [(c, kc, m)] =
     (let r = num_inv (c, kc)
      in if snd r = Floating \<or> m = {#} then Frac (scale r (x # y # ys)) [(1, Exact, m)]
         else Frac (scale (numer (fst r), Exact) (x # y # ys)) [(denom (fst r), Exact, m)])"
  by (cases x) (simp add: sp_div_def Let_def)

lemma sp_div_exact_single_multi:
  "sp_div [(a, Exact, k)] (x # y # ys) =
     Frac [(numer a, Exact, k)] (scale (denom a, Exact) (x # y # ys))"
  by (cases x) (simp add: sp_div_def)

lemma sp_div_by_multi:
  assumes "n \<noteq> []" and "\<forall>a k. n \<noteq> [(a, Exact, k)]"
  shows "sp_div n (x # y # ys) =
     (if n = x # y # ys then Frac [(1, Exact, {#})] [(1, Exact, {#})] else Frac n (x # y # ys))"
proof -
  obtain c kc m where x: "x = (c, kc, m)" by (cases x)
  from assms(1) obtain t ts where n: "n = t # ts" by (cases n) auto
  obtain a ka k where t: "t = (a, ka, k)" by (cases t)
  show ?thesis
  proof (cases ts)
    case Nil
    with assms(2) n t have "ka = Floating" by (cases ka) auto
    with Nil n t x show ?thesis by (simp add: sp_div_def)
  next
    case (Cons u us)
    with n t x show ?thesis by (auto simp: sp_div_def split: kind.splits)
  qed
qed

text \<open>What \<open>sp_div\<close> returns is a quotient that \<open>sp_div\<close> leaves as it is.\<close>

lemma sp_div_fixed_exact_single:
  "sp_div [(numer v, Exact, k - m)] [(denom v, Exact, m - k)]
     = Frac [(numer v, Exact, k - m)] [(denom v, Exact, m - k)]"
  by (simp add: sp_div_single_single exact_quotient_mul exact_quotient_div cancel_twice
           del: diff_diff_add_mset)

lemma sp_div_fixed_float_single:
  "sp_div [(v, Floating, k - m)] [(1, Exact, m - k)]
     = Frac [(v, Floating, k - m)] [(1, Exact, m - k)]"
  by (simp add: sp_div_single_single num_inv_one num_mul_one num_div_one cancel_twice
           del: diff_diff_add_mset)

lemma sp_div_fixed_multi_over_one:
  "sp_div (x # y # ys) [(1, Exact, m)] = Frac (x # y # ys) [(1, Exact, m)]"
  by (simp add: sp_div_multi_single num_inv_one scale_one numer_def denom_def Let_def)

lemma sp_div_fixed_multi_over_denom:
  assumes "m \<noteq> {#}"
  shows "sp_div (x # y # ys) [(denom v, Exact, m)] = Frac (x # y # ys) [(denom v, Exact, m)]"
  using assms
  by (simp add: sp_div_multi_single num_inv_def numer_inverse_denom denom_inverse_denom scale_one
        Let_def)

lemma sp_div_fixed_integer_over_multi:
  "sp_div [(numer a, Exact, k)] (x # y # ys) = Frac [(numer a, Exact, k)] (x # y # ys)"
  by (simp add: sp_div_exact_single_multi numer_of_numer denom_of_numer scale_one)

lemma sp_div_fixed_one: "sp_div [(1, Exact, {#})] [(1, Exact, {#})] = Frac [(1, Exact, {#})] [(1, Exact, {#})]"
  by (simp add: sp_div_single_single num_div_one numer_def denom_def)

lemma sp_div_fixed:
  assumes "sp_div n d = Frac n' d'"
  shows "sp_div n' d' = Frac n' d'" and "d' \<noteq> []"
proof -
  from assms have d: "d \<noteq> []" by (auto simp: sp_div_def split: if_splits)
  have "sp_div n' d' = Frac n' d' \<and> d' \<noteq> []"
  proof (cases "n = []")
    case True
    with assms d have "n' = []" "d' = [(1, Exact, {#})]" by (simp_all add: sp_div_zero)
    then show ?thesis by (simp add: sp_div_zero)
  next
    case n: False
    then obtain t ts where nt: "n = t # ts" by (cases n) auto
    obtain a ka k where t: "t = (a, ka, k)" by (cases t)
    from d obtain u us where du: "d = u # us" by (cases d) auto
    obtain c kc m where u: "u = (c, kc, m)" by (cases u)
    show ?thesis
    proof (cases us)
      case Nil
      note single = du u Nil
      show ?thesis
      proof (cases ts)
        case Nil
        define q where "q = (if k = {#} \<and> m = {#} then num_div (a, ka) (c, kc)
                             else num_mul (a, ka) (num_inv (c, kc)))"
        show ?thesis
        proof (cases "snd q = Exact")
          case True
          with assms single nt t Nil q_def
          have "n' = [(numer (fst q), Exact, k - m)]" "d' = [(denom (fst q), Exact, m - k)]"
            by (simp_all add: sp_div_single_single Let_def)
          then show ?thesis by (simp add: sp_div_fixed_exact_single)
        next
          case False
          with assms single nt t Nil q_def
          have "n' = [(fst q, Floating, k - m)]" "d' = [(1, Exact, m - k)]"
            by (simp_all add: sp_div_single_single Let_def)
          then show ?thesis by (simp add: sp_div_fixed_float_single)
        qed
      next
        case (Cons t2 ts2)
        define r where "r = num_inv (c, kc)"
        show ?thesis
        proof (cases "snd r = Floating \<or> m = {#}")
          case True
          with assms single nt Cons r_def
          have n': "n' = scale r n" and d': "d' = [(1, Exact, m)]"
            by (simp_all add: sp_div_multi_single Let_def)
          from n' nt Cons obtain x y ys where "n' = x # y # ys"
            by (auto simp: scale_def)
          with d' show ?thesis by (simp add: sp_div_fixed_multi_over_one)
        next
          case False
          with assms single nt Cons r_def
          have n': "n' = scale (numer (fst r), Exact) n" and d': "d' = [(denom (fst r), Exact, m)]"
            by (simp_all add: sp_div_multi_single Let_def)
          from n' nt Cons obtain x y ys where "n' = x # y # ys"
            by (auto simp: scale_def)
          with d' False show ?thesis by (simp add: sp_div_fixed_multi_over_denom)
        qed
      qed
    next
      case (Cons u2 us2)
      note multi = du Cons
      show ?thesis
      proof (cases "\<exists>a k. n = [(a, Exact, k)]")
        case True
        then obtain a' k' where n1: "n = [(a', Exact, k')]" by blast
        with assms multi
        have n': "n' = [(numer a', Exact, k')]" and d': "d' = scale (denom a', Exact) d"
          by (simp_all add: sp_div_exact_single_multi)
        from d' multi obtain x y ys where "d' = x # y # ys" by (auto simp: scale_def)
        with n' show ?thesis by (simp add: sp_div_fixed_integer_over_multi)
      next
        case ns: False
        then have ns': "\<forall>a k. n \<noteq> [(a, Exact, k)]" by blast
        show ?thesis
        proof (cases "n = d")
          case True
          with assms multi sp_div_by_multi [OF n ns', of u u2 us2]
          have "n' = [(1, Exact, {#})]" "d' = [(1, Exact, {#})]" by simp_all
          then show ?thesis by (simp add: sp_div_fixed_one)
        next
          case False
          with multi sp_div_by_multi [OF n ns', of u u2 us2]
          have "sp_div n d = Frac n d" by simp
          from assms [unfolded this] have "n' = n" "d' = d" by auto
          with \<open>sp_div n d = Frac n d\<close> d show ?thesis by simp
        qed
      qed
    qed
  qed
  then show "sp_div n' d' = Frac n' d'" and "d' \<noteq> []" by simp_all
qed

lemma expand_rational_expr_sp_div: "expand_rational_expr (sp_div n d) = sp_div n d"
proof (cases "sp_div n d")
  case Zoo
  then show ?thesis by (simp add: expand_rational_expr_def)
next
  case (Frac n' d')
  from sp_div_fixed(1) [OF this] Frac show ?thesis
    by (simp add: expand_rational_expr_def expand_def)
qed

lemma drop_small_terms_Frac:
  "drop_small_terms (Frac num den) tol =
     (if cleaned tol den = [] then Zoo else sp_div (cleaned tol num) (cleaned tol den))"
  by (simp add: drop_small_terms_def Let_def expand_rational_expr_sp_div)

lemma scale_Nil_iff: "scale r p = [] \<longleftrightarrow> p = []"
  by (simp add: scale_def)

lemma sp_div_sides:
  assumes "n \<noteq> []" and "d \<noteq> []"
  shows "\<exists>n' d'. sp_div n d = Frac n' d' \<and> n' \<noteq> [] \<and> d' \<noteq> []"
proof -
  from assms(1) obtain t ts where nt: "n = t # ts" by (cases n) auto
  obtain a ka k where t: "t = (a, ka, k)" by (cases t)
  from assms(2) obtain u us where du: "d = u # us" by (cases d) auto
  obtain c kc m where u: "u = (c, kc, m)" by (cases u)
  show ?thesis
  proof (cases us)
    case Nil
    note single = du u Nil
    show ?thesis
    proof (cases ts)
      case Nil
      with single nt t show ?thesis by (simp add: sp_div_single_single Let_def)
    next
      case (Cons t2 ts2)
      with single nt show ?thesis by (simp add: sp_div_multi_single Let_def scale_def)
    qed
  next
    case (Cons u2 us2)
    note multi = du Cons
    show ?thesis
    proof (cases "\<exists>a k. n = [(a, Exact, k)]")
      case True
      with multi show ?thesis by (auto simp: sp_div_exact_single_multi scale_def)
    next
      case False
      then have "\<forall>a k. n \<noteq> [(a, Exact, k)]" by blast
      from sp_div_by_multi [OF assms(1) this, of u u2 us2] multi assms(1) show ?thesis by simp
    qed
  qed
qed










text \<open>With integer coefficients the same quotient is held as it is, and the second
  application changes nothing: \<open>(x + y) / (2 z)\<close> with tolerance \<open>0.75\<close>.\<close>

lemma drop_small_terms_integer_denominator:
  "drop_small_terms (Frac [(1, Exact, {#''x''#}), (1, Exact, {#''y''#})] [(2, Exact, {#''z''#})])
     (3 / 4)
     = Frac [(1, Exact, {#''x''#}), (1, Exact, {#''y''#})] [(2, Exact, {#''z''#})] \<and>
   drop_small_terms
     (drop_small_terms
        (Frac [(1, Exact, {#''x''#}), (1, Exact, {#''y''#})] [(2, Exact, {#''z''#})]) (3 / 4))
     (3 / 4)
     = Frac [(1, Exact, {#''x''#}), (1, Exact, {#''y''#})] [(2, Exact, {#''z''#})]"
  by code_simp

lemma cleaned_zero_iff: "cleaned tol p = [] \<longleftrightarrow> (\<forall>t \<in> set p. fst t = 0)"
proof
  assume "cleaned tol p = []"
  with cleaned_nonzero [of p tol] show "\<forall>t \<in> set p. fst t = 0" by blast
next
  assume z: "\<forall>t \<in> set p. fst t = 0"
  then have "\<forall>t \<in> set (as_ordered_terms p). fst t = 0" by (simp add: as_ordered_terms_def)
  moreover have "set (retained_terms tol p) \<subseteq> set (as_ordered_terms p)"
  proof (cases "filter_terms tol (as_ordered_terms p) = []")
    case True
    from retained_fallback [OF this] show ?thesis by auto
  next
    case False
    with retained_terms_cases [of tol p] show ?thesis by (auto simp: filter_terms_eq)
  qed
  ultimately have "\<forall>t \<in> set (retained_terms tol p). fst t = 0" by blast
  then show "cleaned tol p = []" by (simp add: cleaned_def expand_def sp_Add_def)
qed

text \<open>
  Claim C2. In \<open>drop_small_terms\<close> a term of the expanded numerator or denominator passes
  the filter if and only if its coefficient is numeric, non-zero and of magnitude strictly
  greater than \<open>tol\<close> (the filter keeps exactly these terms, in their order); when the filter
  keeps some term the retained terms are the filtered ones; when it empties a side, exactly
  one original term of greatest coefficient magnitude is retained; so the retained list of
  a side is never empty; the result is the quotient of the two sums of retained terms (or
  \<open>zoo\<close>); and when both sides of the input have a non-zero term, both sides of the result
  are non-empty sums.
\<close>

theorem drop_small_terms_filter_and_fallback:
  "filter_terms tol ts = filter (\<lambda>t. is_number (fst t) \<and> fst t \<noteq> 0 \<and> tol < \<bar>fst t\<bar>) ts \<and>
   (filter_terms tol (as_ordered_terms p) \<noteq> [] \<longrightarrow>
      retained_terms tol p = filter_terms tol (as_ordered_terms p)) \<and>
   (filter_terms tol (as_ordered_terms p) = [] \<longrightarrow>
      (\<exists>t. retained_terms tol p = [t] \<and> t \<in> set (as_ordered_terms p) \<and>
           (\<forall>u \<in> set (as_ordered_terms p). \<bar>fst u\<bar> \<le> \<bar>fst t\<bar>))) \<and>
   retained_terms tol p \<noteq> [] \<and>
   drop_small_terms (Frac num den) tol =
     (if sp_Add (retained_terms tol (expand den)) = [] then Zoo
      else sp_div (sp_Add (retained_terms tol (expand num)))
                  (sp_Add (retained_terms tol (expand den)))) \<and>
   ((\<exists>t \<in> set num. fst t \<noteq> 0) \<and> (\<exists>t \<in> set den. fst t \<noteq> 0) \<longrightarrow>
      (\<exists>n' d'. drop_small_terms (Frac num den) tol = Frac n' d' \<and> n' \<noteq> [] \<and> d' \<noteq> []))"
proof -
  have a: "retained_terms tol p \<noteq> []" by (rule retained_terms_nonempty)
  have b: "drop_small_terms (Frac num den) tol =
     (if sp_Add (retained_terms tol (expand den)) = [] then Zoo
      else sp_div (sp_Add (retained_terms tol (expand num)))
                  (sp_Add (retained_terms tol (expand den))))"
    using drop_small_terms_Frac [of num den tol] by (simp add: cleaned_def)
  have c: "\<exists>n' d'. drop_small_terms (Frac num den) tol = Frac n' d' \<and> n' \<noteq> [] \<and> d' \<noteq> []"
    if "(\<exists>t \<in> set num. fst t \<noteq> 0) \<and> (\<exists>t \<in> set den. fst t \<noteq> 0)"
  proof -
    from that have "cleaned tol num \<noteq> []" and "cleaned tol den \<noteq> []"
      by (simp_all add: cleaned_nonzero)
    with sp_div_sides [of "cleaned tol num" "cleaned tol den"] show ?thesis
      by (simp add: drop_small_terms_Frac)
  qed
  from filter_terms_eq [of tol ts] retained_terms_cases [of tol p] retained_fallback [of tol p] a b c
  show ?thesis by blast
qed

theorem drop_small_terms_filter_and_fallback_witness:
  "filter_terms (1 / 4) [(2, Floating, {#''x''#}), (1 / 8, Floating, {#''y''#}), (- 1 / 2, Floating, {#})]
     = [(2, Floating, {#''x''#}), (- 1 / 2, Floating, {#})] \<and>
   retained_terms (1 / 4) [(1 / 8, Floating, {#''x''#}), (- 1 / 5, Floating, {#''y''#})] = [(- 1 / 5, Floating, {#''y''#})] \<and>
   (\<exists>n' d'. drop_small_terms
       (Frac [(1 / 8, Floating, {#''x''#}), (- 1 / 5, Floating, {#''y''#})] [(4, Floating, {#''z''#}), (1 / 8, Floating, {#''w''#})]) (1 / 4)
       = Frac n' d' \<and> n' \<noteq> [] \<and> d' \<noteq> [])"
proof -
  let ?p = "[(1 / 8, Floating, {#''x''#}), (- 1 / 5, Floating, {#''y''#})] :: polynomial"
  let ?d = "[(4, Floating, {#''z''#}), (1 / 8, Floating, {#''w''#})] :: polynomial"
  note th = drop_small_terms_filter_and_fallback
    [of "1 / 4" "[(2, Floating, {#''x''#}), (1 / 8, Floating, {#''y''#}), (- 1 / 2, Floating, {#})]" ?p ?p ?d]
  have "filter_terms (1 / 4) ?p = []"
    using drop_small_terms_filter_and_fallback [of "1 / 4" ?p ?p ?p ?d] by simp
  then have e: "filter_terms (1 / 4) (as_ordered_terms ?p) = []"
    by (simp add: as_ordered_terms_def)
  with th obtain t where t: "retained_terms (1 / 4) ?p = [t]" "t \<in> set (as_ordered_terms ?p)"
    "\<forall>u \<in> set (as_ordered_terms ?p). \<bar>fst u\<bar> \<le> \<bar>fst t\<bar>" by blast
  then have "t = (- 1 / 5, Floating, {#''y''#})" by (auto simp: as_ordered_terms_def)
  with t(1) have r: "retained_terms (1 / 4) ?p = [(- 1 / 5, Floating, {#''y''#})]" by simp
  have f: "filter_terms (1 / 4) [(2, Floating, {#''x''#}), (1 / 8, Floating, {#''y''#}), (- 1 / 2, Floating, {#})]
     = [(2, Floating, {#''x''#}), (- 1 / 2, Floating, {#})]" using th by (simp add: is_number_def)
  have "(\<exists>t \<in> set ?p. fst t \<noteq> 0) \<and> (\<exists>t \<in> set ?d. fst t \<noteq> 0)" by simp
  with th have "\<exists>n' d'. drop_small_terms (Frac ?p ?d) (1 / 4) = Frac n' d' \<and> n' \<noteq> [] \<and> d' \<noteq> []"
    by blast
  with f r show ?thesis by blast
qed

text \<open>
  Claim C3. When the cleaned denominator (after filtering and fallback) is identically
  zero, \<open>drop_small_terms\<close> returns \<open>zoo\<close>: not a rational expression, in particular not the
  number zero, and as a normal return value.
\<close>

theorem drop_small_terms_zero_denominator:
  assumes "cleaned tol den = []"
  shows "drop_small_terms (Frac num den) tol = Zoo \<and>
         (\<forall>n d. drop_small_terms (Frac num den) tol \<noteq> Frac n d)"
  using assms by (simp add: drop_small_terms_Frac)

theorem drop_small_terms_zero_denominator_witness:
  "cleaned (1 / 1000000) [] = [] \<and>
   drop_small_terms (Frac [(1, Exact, {#''x''#})] []) (1 / 1000000) = Zoo"
proof -
  have c: "cleaned (1 / 1000000) [] = []" by (simp add: cleaned_zero_iff)
  from drop_small_terms_zero_denominator [OF c, of "[(1, Exact, {#''x''#})]"] c
  show ?thesis by simp
qed

section \<open>Properties of rescale\_expression\<close>














text \<open>What a successful selection means.\<close>

lemma Target_foundD:
  assumes "rescale_choice D target gens = Target_found c e"
  shows "\<exists>P t. \<not> poly_is_number D \<and> sp_Poly D (effective_gens D gens) = Inr P \<and>
           target = Some t \<and> monomial_exponents P (expand t) = Inr e \<and>
           usable_value (coeff_at P e) = Some c"
  using assms
  by (auto simp: rescale_choice_def target_choice_def
           split: if_splits sum.splits option.splits prod.splits)

lemma Leading_termD:
  assumes "rescale_choice D target gens = Leading_term c e"
  shows "\<exists>P. \<not> poly_is_number D \<and> sp_Poly D (effective_gens D gens) = Inr P \<and>
           (\<forall>e'. \<not> target_usable P target e') \<and> target_choice P target = Inr None \<and>
           monoms P \<noteq> [] \<and>
           e = leading_exponents (monoms P) \<and> usable_value (coeff_at P e) = Some c"
  using assms
  by (auto simp: rescale_choice_def target_choice_def target_usable_def
           split: if_splits sum.splits option.splits prod.splits)














text \<open>
  With exact coefficients and a single term above, the coefficient does not become \<open>1\<close>
  either: \<open>1 / (2 x + 4)\<close> is rescaled to \<open>(1/2) / (x + 2)\<close>, which \<open>sp.fraction\<close> reads as
  \<open>1\<close> over \<open>2 (x + 2)\<close>, and the function returns \<open>1 / (2 x + 4)\<close>.
\<close>

lemma rescale_expression_exact_single_numerator:
  "rescale_choice [(2, Exact, {#''x''#}), (4, Exact, {#})] None None
     = Leading_term (2, Exact) [1] \<and>
   rescale_expression (\<lambda>e. e)
     (Frac [(1, Exact, {#})] [(2, Exact, {#''x''#}), (4, Exact, {#})]) None None
     = Frac [(1, Exact, {#})] [(2, Exact, {#''x''#}), (4, Exact, {#})]"
  by code_simp

lemma usable_value_None_iff: "usable_value q = None \<longleftrightarrow> unusable q"
  by (auto simp: usable_value_def unusable_def is_zero_def evalf_def has_nan_def
           split: option.splits)

lemma target_choice_error:
  "target = Some t \<Longrightarrow> monomial_exponents P (expand t) = Inl err \<Longrightarrow>
   target_choice P target = Inl err"
  by (simp add: target_choice_def)

text \<open>
  Claim C7, as amended. \<open>rescale_expression\<close> returns \<open>sp.together(expr)\<close>, as a normal
  return value, when the denominator \<open>D\<close> of \<open>sp.together(expr)\<close> is a constant, or the
  construction of the polynomial fails, or the target handed to \<open>coeff_monomial\<close> is
  rejected (the same \<open>except\<close> branch), or, no supplied target having a coefficient that
  passes the test, the polynomial has no monomials or the coefficient of the leading
  monomial is not a number, is zero, or has a magnitude not above \<open>10\<^sup>-\<^sup>1\<^sup>2\<close>. (\<open>zoo\<close> has the
  constant denominator \<open>1\<close>.)
\<close>

theorem rescale_expression_returns_together:
  assumes "tg expr = Zoo \<or>
     (\<exists>N D. tg expr = Frac N D \<and>
        (poly_is_number D \<or>
         (\<exists>err. sp_Poly D (effective_gens D gens) = Inl err) \<or>
         (\<exists>P. sp_Poly D (effective_gens D gens) = Inr P \<and>
            ((\<exists>t err. target = Some t \<and> monomial_exponents P (expand t) = Inl err) \<or>
             ((\<forall>e. \<not> target_usable P target e) \<and>
              (monoms P = [] \<or> unusable (coeff_at P (leading_exponents (monoms P)))))))))"
  shows "rescale_expression tg expr target gens = tg expr"
  using assms
proof
  assume "tg expr = Zoo"
  then show ?thesis by (simp add: rescale_expression_def)
next
  assume "\<exists>N D. tg expr = Frac N D \<and>
        (poly_is_number D \<or>
         (\<exists>err. sp_Poly D (effective_gens D gens) = Inl err) \<or>
         (\<exists>P. sp_Poly D (effective_gens D gens) = Inr P \<and>
            ((\<exists>t err. target = Some t \<and> monomial_exponents P (expand t) = Inl err) \<or>
             ((\<forall>e. \<not> target_usable P target e) \<and>
              (monoms P = [] \<or> unusable (coeff_at P (leading_exponents (monoms P))))))))"
  then obtain N D where tg: "tg expr = Frac N D"
    and ab: "poly_is_number D \<or>
         (\<exists>err. sp_Poly D (effective_gens D gens) = Inl err) \<or>
         (\<exists>P. sp_Poly D (effective_gens D gens) = Inr P \<and>
            ((\<exists>t err. target = Some t \<and> monomial_exponents P (expand t) = Inl err) \<or>
             ((\<forall>e. \<not> target_usable P target e) \<and>
              (monoms P = [] \<or> unusable (coeff_at P (leading_exponents (monoms P)))))))"
    by blast
  have nt: "rescale_choice D target gens \<noteq> Target_found c e" for c e
  proof
    assume "rescale_choice D target gens = Target_found c e"
    from Target_foundD [OF this] obtain P t where
      f: "\<not> poly_is_number D" "sp_Poly D (effective_gens D gens) = Inr P" "target = Some t"
         "monomial_exponents P (expand t) = Inr e" "usable_value (coeff_at P e) = Some c" by blast
    then have "target_usable P target e" by (auto simp: target_usable_def)
    with f ab show False by auto
  qed
  have nl: "rescale_choice D target gens \<noteq> Leading_term c e" for c e
  proof
    assume "rescale_choice D target gens = Leading_term c e"
    from Leading_termD [OF this] obtain P where
      f: "\<not> poly_is_number D" "sp_Poly D (effective_gens D gens) = Inr P"
         "target_choice P target = Inr None" "monoms P \<noteq> []"
         "e = leading_exponents (monoms P)" "usable_value (coeff_at P e) = Some c" by blast
    from f(6) have "\<not> unusable (coeff_at P e)"
      using usable_value_None_iff [of "coeff_at P e"] by simp
    moreover have "\<not> (\<exists>t err. target = Some t \<and> monomial_exponents P (expand t) = Inl err)"
      using f(3) target_choice_error [of target _ P] by auto
    ultimately show False using f ab by auto
  qed
  show ?thesis
    using nt nl tg by (cases "rescale_choice D target gens")
      (auto simp: rescale_expression_def)
qed

theorem rescale_expression_returns_together_witness:
  "rescale_expression (\<lambda>e. e) Zoo None None = Zoo \<and>
   rescale_expression (\<lambda>e. e) (Frac [(1, Exact, {#''x''#})] [(2, Exact, {#})]) None None
     = Frac [(1, Exact, {#''x''#})] [(2, Exact, {#})] \<and>
   rescale_expression (\<lambda>e. e)
       (Frac [(1, Exact, {#})] [(3, Exact, {#''x''#}), (1, Exact, {#})]) None (Some [''x'', ''x''])
     = Frac [(1, Exact, {#})] [(3, Exact, {#''x''#}), (1, Exact, {#})] \<and>
   rescale_expression (\<lambda>e. e)
       (Frac [(1, Exact, {#})] [(3, Exact, {#''x''#}), (1, Exact, {#})])
       (Some [(2, Exact, {#''x''#})]) None
     = Frac [(1, Exact, {#})] [(3, Exact, {#''x''#}), (1, Exact, {#})] \<and>
   rescale_expression (\<lambda>e. e)
       (Frac [(1, Exact, {#})] [(3, Exact, {#''x''#}), (1, Exact, {#})])
       (Some [(1, Floating, {#''x''#})]) None
     = Frac [(1, Exact, {#})] [(3, Exact, {#''x''#}), (1, Exact, {#})] \<and>
   rescale_expression (\<lambda>e. e)
       (Frac [(1, Exact, {#})] [(1 / 10 ^ 13, Floating, {#''x''#}), (1, Floating, {#})]) None None
     = Frac [(1, Exact, {#})] [(1 / 10 ^ 13, Floating, {#''x''#}), (1, Floating, {#})] \<and>
   rescale_expression (\<lambda>e. e)
       (Frac [(1, Exact, {#})] [(3, Exact, {#''a'', ''x''#}), (1, Exact, {#})]) None (Some [''x''])
     = Frac [(1, Exact, {#})] [(3, Exact, {#''a'', ''x''#}), (1, Exact, {#})] \<and>
   rescale_expression together_sample
       (Frac [(1 / 2, Exact, {#''x''#}), (1 / 3, Exact, {#''y''#})] [(1, Exact, {#})]) None None
     = Frac [(3, Exact, {#''x''#}), (2, Exact, {#''y''#})] [(6, Exact, {#})]"
proof -
  let ?id = "\<lambda>e :: expr. e"
  let ?D = "[(3, Exact, {#''x''#}), (1, Exact, {#})] :: polynomial"
  let ?E = "[(1 / 10 ^ 13, Floating, {#''x''#}), (1, Floating, {#})] :: polynomial"
  let ?F = "[(3, Exact, {#''a'', ''x''#}), (1, Exact, {#})] :: polynomial"
  let ?S = "Frac [(1 / 2, Exact, {#''x''#}), (1 / 3, Exact, {#''y''#})] [(1, Exact, {#})]"
  have a: "poly_is_number [(2, Exact, {#})]" by (simp add: poly_is_number_def term_monomial_def)
  have b: "sp_Poly ?D (effective_gens ?D (Some [''x'', ''x''])) = Inl GeneratorsError"
    by (simp add: sp_Poly_def effective_gens_def)
  let ?P = "\<lparr>poly_gens = [''x''],
             poly_terms = [([1], (3, Exact, {#})), ([0], (1, Exact, {#}))]\<rparr>"
  have c1: "sp_Poly ?D (effective_gens ?D None) = Inr ?P" by code_simp
  have c2: "monomial_exponents ?P (expand [(2, Exact, {#''x''#})]) = Inl ValueError"
    by (simp add: monomial_exponents_def expand_def)
  have c3: "monomial_exponents ?P (expand [(1, Floating, {#''x''#})]) = Inl ValueError"
    by (simp add: monomial_exponents_def expand_def)
  let ?Q = "\<lparr>poly_gens = [''x''],
             poly_terms = [([1], (1 / 10 ^ 13, Floating, {#})), ([0], (1, Floating, {#}))]\<rparr>"
  have d1: "sp_Poly ?E (effective_gens ?E None) = Inr ?Q" by code_simp
  have d2: "unusable (coeff_at ?Q (leading_exponents (monoms ?Q)))" by code_simp
  let ?R = "\<lparr>poly_gens = [''x''],
             poly_terms = [([1], (3, Exact, {#''a''#})), ([0], (1, Exact, {#}))]\<rparr>"
  have e1: "sp_Poly ?F (effective_gens ?F (Some [''x''])) = Inr ?R" by code_simp
  have e2: "unusable (coeff_at ?R (leading_exponents (monoms ?R)))" by code_simp
  have f1: "together_sample ?S = Frac [(3, Exact, {#''x''#}), (2, Exact, {#''y''#})] [(6, Exact, {#})]"
    by (simp add: together_sample_def)
  have f2: "poly_is_number [(6, Exact, {#})]" by (simp add: poly_is_number_def term_monomial_def)
  have nt: "\<forall>e. \<not> target_usable P None e" for P by (simp add: target_usable_def)
  note th = rescale_expression_returns_together
  have 0: "rescale_expression ?id Zoo None None = Zoo"
    using th [where tg = ?id and expr = Zoo and target = None and gens = None] by simp
  have 1: "rescale_expression ?id (Frac [(1, Exact, {#''x''#})] [(2, Exact, {#})]) None None
     = Frac [(1, Exact, {#''x''#})] [(2, Exact, {#})]"
    using th [where tg = ?id and expr = "Frac [(1, Exact, {#''x''#})] [(2, Exact, {#})]"
                and target = None and gens = None] a by simp
  have 2: "rescale_expression ?id (Frac [(1, Exact, {#})] ?D) None (Some [''x'', ''x''])
     = Frac [(1, Exact, {#})] ?D"
    using th [where tg = ?id and expr = "Frac [(1, Exact, {#})] ?D"
                and target = None and gens = "Some [''x'', ''x'']"] b by simp
  have 3: "rescale_expression ?id (Frac [(1, Exact, {#})] ?D) (Some [(2, Exact, {#''x''#})]) None
     = Frac [(1, Exact, {#})] ?D"
    using th [where tg = ?id and expr = "Frac [(1, Exact, {#})] ?D"
                and target = "Some [(2, Exact, {#''x''#})]" and gens = None] c1 c2 by simp
  have 4: "rescale_expression ?id (Frac [(1, Exact, {#})] ?D) (Some [(1, Floating, {#''x''#})]) None
     = Frac [(1, Exact, {#})] ?D"
    using th [where tg = ?id and expr = "Frac [(1, Exact, {#})] ?D"
                and target = "Some [(1, Floating, {#''x''#})]" and gens = None] c1 c3 by simp
  have 5: "rescale_expression ?id (Frac [(1, Exact, {#})] ?E) None None = Frac [(1, Exact, {#})] ?E"
    using th [where tg = ?id and expr = "Frac [(1, Exact, {#})] ?E"
                and target = None and gens = None] d1 d2 nt by simp
  have 6: "rescale_expression ?id (Frac [(1, Exact, {#})] ?F) None (Some [''x''])
     = Frac [(1, Exact, {#})] ?F"
    using th [where tg = ?id and expr = "Frac [(1, Exact, {#})] ?F"
                and target = None and gens = "Some [''x'']"] e1 e2 nt by simp
  have 7: "rescale_expression together_sample ?S None None
     = Frac [(3, Exact, {#''x''#}), (2, Exact, {#''y''#})] [(6, Exact, {#})]"
    using th [where tg = together_sample and expr = ?S and target = None and gens = None] f1 f2
    by simp
  from 0 1 2 3 4 5 6 7 show ?thesis by blast
qed

text \<open>
  Claim C7 as stated fails: the expression returned is \<open>sp.together(expr)\<close>, not \<open>expr\<close>. For
  \<open>x/2 + y/3\<close>, which \<open>sp.together\<close> rewrites as \<open>(3x + 2y)/6\<close>, the denominator \<open>6\<close> is a
  constant and the function returns \<open>(3x + 2y)/6\<close>.
\<close>

theorem rescale_expression_changes_sum_of_fractions:
  "poly_is_number [(6, Exact, {#})] \<and>
   rescale_expression together_sample
       (Frac [(1 / 2, Exact, {#''x''#}), (1 / 3, Exact, {#''y''#})] [(1, Exact, {#})]) None None
     = Frac [(3, Exact, {#''x''#}), (2, Exact, {#''y''#})] [(6, Exact, {#})] \<and>
   rescale_expression together_sample
       (Frac [(1 / 2, Exact, {#''x''#}), (1 / 3, Exact, {#''y''#})] [(1, Exact, {#})]) None None
     \<noteq> Frac [(1 / 2, Exact, {#''x''#}), (1 / 3, Exact, {#''y''#})] [(1, Exact, {#})]"
  by code_simp

section \<open>Properties of print\_and\_store\_models\<close>

lemma process_row_counters:
  "successful_models (process_row eng latex i eq st)
     = successful_models st + (if row_outcome eng eq = Final then 1 else 0) \<and>
   failed_models (process_row eng latex i eq st)
     = failed_models st + (if row_outcome eng eq = Final then 0 else 1)"
  by (simp add: process_row_def row_outcome_def Let_def)

lemma process_row_one_counter:
  "(successful_models (process_row eng latex i eq st) = successful_models st + 1 \<and>
    failed_models (process_row eng latex i eq st) = failed_models st) \<or>
   (successful_models (process_row eng latex i eq st) = successful_models st \<and>
    failed_models (process_row eng latex i eq st) = failed_models st + 1)"
  using process_row_counters [of eng latex i eq st] by (cases "row_outcome eng eq = Final") simp_all

lemma process_rows_counters:
  "successful_models (process_rows eng latex i eqs st)
     + failed_models (process_rows eng latex i eqs st)
   = successful_models st + failed_models st + length eqs"
proof (induction eqs arbitrary: i st)
  case Nil
  show ?case by simp
next
  case (Cons eq eqs)
  from process_row_one_counter [of eng latex i eq st]
  have "successful_models (process_row eng latex i eq st)
          + failed_models (process_row eng latex i eq st)
        = successful_models st + failed_models st + 1" by auto
  with Cons [of "Suc i" "process_row eng latex i eq st"] show ?case by simp
qed

text \<open>A set of indices that a row joins exactly when it has the property \<open>P\<close>.\<close>

lemma process_rows_indices:
  fixes g :: "models \<Rightarrow> nat set"
  assumes step: "\<And>i eq st. g (process_row eng latex i eq st) = g st \<union> (if P eq then {i} else {})"
  shows "g (process_rows eng latex i eqs st)
           = g st \<union> {k. i \<le> k \<and> k < i + length eqs \<and> P (eqs ! (k - i))}"
proof (induction eqs arbitrary: i st)
  case Nil
  show ?case by auto
next
  case (Cons eq eqs)
  have "{k. i \<le> k \<and> k < i + length (eq # eqs) \<and> P ((eq # eqs) ! (k - i))}
          = (if P eq then {i} else {})
            \<union> {k. Suc i \<le> k \<and> k < Suc i + length eqs \<and> P (eqs ! (k - Suc i))}"
    (is "?A = ?B")
  proof (rule set_eqI)
    fix k
    show "k \<in> ?A \<longleftrightarrow> k \<in> ?B"
    proof (cases "k = i")
      case True
      then show ?thesis by simp
    next
      case False
      then have "i \<le> k \<Longrightarrow> (eq # eqs) ! (k - i) = eqs ! (k - Suc i)"
        by (simp add: nth_Cons')
      with False show ?thesis by auto
    qed
  qed
  with Cons [of "Suc i" "process_row eng latex i eq st"] step [of i eq st]
  show ?case by (simp add: Un_assoc)
qed

lemma process_row_raw:
  "dom (raw_models (process_row eng latex i eq st))
     = dom (raw_models st) \<union> (if row_outcome eng eq \<noteq> SolveFailure then {i} else {})"
  by (simp add: process_row_def row_outcome_def Let_def)

lemma process_row_rescaled:
  "dom (rescaled_models (process_row eng latex i eq st))
     = dom (rescaled_models st)
       \<union> (if row_outcome eng eq = AllTermsDropped \<or> row_outcome eng eq = Final then {i} else {})"
  by (simp add: process_row_def row_outcome_def Let_def)

lemma process_row_cleaned:
  "dom (cleaned_models (process_row eng latex i eq st))
     = dom (cleaned_models st) \<union> (if row_outcome eng eq = Final then {i} else {})"
  by (simp add: process_row_def row_outcome_def Let_def)

lemma process_row_final:
  "dom (final_models (process_row eng latex i eq st))
     = dom (final_models st) \<union> (if row_outcome eng eq = Final then {i} else {})"
  by (simp add: process_row_def row_outcome_def Let_def)

lemma process_row_csv:
  "fst ` set (rows_for_csv (process_row eng latex i eq st))
     = fst ` set (rows_for_csv st) \<union> (if row_outcome eng eq = Final then {i} else {})"
  by (simp add: process_row_def row_outcome_def Let_def)

text \<open>The indices stored by a whole run, by the outcome of their rows.\<close>

lemma stored_indices:
  fixes eng :: "'eq engine"
  defines "reached \<equiv> \<lambda>eq_list P. {k. k < length eq_list \<and> P (row_outcome eng (eq_list ! k))}"
  shows "dom (raw_models (print_and_store_models eng latex eq_list))
           = reached eq_list (\<lambda>out. out \<noteq> SolveFailure)"
    and "dom (rescaled_models (print_and_store_models eng latex eq_list))
           = reached eq_list (\<lambda>out. out = AllTermsDropped \<or> out = Final)"
    and "dom (cleaned_models (print_and_store_models eng latex eq_list))
           = reached eq_list (\<lambda>out. out = Final)"
    and "dom (final_models (print_and_store_models eng latex eq_list))
           = reached eq_list (\<lambda>out. out = Final)"
    and "fst ` set (rows_for_csv (print_and_store_models eng latex eq_list))
           = reached eq_list (\<lambda>out. out = Final)"
proof -
  note defs = print_and_store_models_def Let_def initial_models_def reached_def
  show "dom (raw_models (print_and_store_models eng latex eq_list))
           = reached eq_list (\<lambda>out. out \<noteq> SolveFailure)"
    using process_rows_indices [of "\<lambda>st. dom (raw_models st)" eng latex
        "\<lambda>eq. row_outcome eng eq \<noteq> SolveFailure" 0 eq_list initial_models, OF process_row_raw]
    by (simp add: defs)
  show "dom (rescaled_models (print_and_store_models eng latex eq_list))
           = reached eq_list (\<lambda>out. out = AllTermsDropped \<or> out = Final)"
    using process_rows_indices [of "\<lambda>st. dom (rescaled_models st)" eng latex
        "\<lambda>eq. row_outcome eng eq = AllTermsDropped \<or> row_outcome eng eq = Final"
        0 eq_list initial_models, OF process_row_rescaled]
    by (simp add: defs)
  show "dom (cleaned_models (print_and_store_models eng latex eq_list))
           = reached eq_list (\<lambda>out. out = Final)"
    using process_rows_indices [of "\<lambda>st. dom (cleaned_models st)" eng latex
        "\<lambda>eq. row_outcome eng eq = Final" 0 eq_list initial_models, OF process_row_cleaned]
    by (simp add: defs)
  show "dom (final_models (print_and_store_models eng latex eq_list))
           = reached eq_list (\<lambda>out. out = Final)"
    using process_rows_indices [of "\<lambda>st. dom (final_models st)" eng latex
        "\<lambda>eq. row_outcome eng eq = Final" 0 eq_list initial_models, OF process_row_final]
    by (simp add: defs)
  show "fst ` set (rows_for_csv (print_and_store_models eng latex eq_list))
           = reached eq_list (\<lambda>out. out = Final)"
    using process_rows_indices [of "\<lambda>st. fst ` set (rows_for_csv st)" eng latex
        "\<lambda>eq. row_outcome eng eq = Final" 0 eq_list initial_models, OF process_row_csv]
    by (simp add: defs)
qed

text \<open>With the stage of the repository the second check of the loop cannot fire on a
  numerator that has a non-zero term: the fallback of \<open>drop_small_terms\<close> keeps one.\<close>

lemma drop_small_terms_keeps_numerator:
  assumes "\<exists>t \<in> set num. fst t \<noteq> 0"
  shows "\<not> numerator_is_zero (drop_small_terms (Frac num den) tol)"
proof (cases "cleaned tol den = []")
  case True
  then show ?thesis by (simp add: drop_small_terms_Frac numerator_is_zero_def)
next
  case False
  from assms have "cleaned tol num \<noteq> []" by (rule cleaned_nonzero)
  from sp_div_sides [OF this False] False show ?thesis
    by (auto simp: drop_small_terms_Frac numerator_is_zero_def)
qed

text \<open>
  Claim C9. Every equation row increments exactly one of the two counters, so at the end of
  \<open>print_and_store_models\<close> the sum of \<open>successful_models\<close> and \<open>failed_models\<close> is the number
  of rows; the summary, printed last, shows this number and the two counters.
\<close>

theorem counters_sum_to_rows:
  "(\<forall>i eq st.
      (successful_models (process_row eng latex i eq st) = successful_models st + 1 \<and>
       failed_models (process_row eng latex i eq st) = failed_models st) \<or>
      (successful_models (process_row eng latex i eq st) = successful_models st \<and>
       failed_models (process_row eng latex i eq st) = failed_models st + 1)) \<and>
   successful_models (print_and_store_models eng latex eq_list)
     + failed_models (print_and_store_models eng latex eq_list) = length eq_list \<and>
   last (printed (print_and_store_models eng latex eq_list))
     = Summary (length eq_list)
         (successful_models (print_and_store_models eng latex eq_list))
         (failed_models (print_and_store_models eng latex eq_list))"
proof -
  have "successful_models (print_and_store_models eng latex eq_list)
     + failed_models (print_and_store_models eng latex eq_list) = length eq_list"
    using process_rows_counters [of eng latex 0 eq_list initial_models]
    by (simp add: print_and_store_models_def Let_def initial_models_def)
  moreover have "last (printed (print_and_store_models eng latex eq_list))
     = Summary (length eq_list)
         (successful_models (print_and_store_models eng latex eq_list))
         (failed_models (print_and_store_models eng latex eq_list))"
    by (simp add: print_and_store_models_def Let_def)
  ultimately show ?thesis using process_row_one_counter [of eng latex] by blast
qed

text \<open>
  Claim C10. The key sets of the four returned dictionaries are nested:
  \<open>keys(final_models) = keys(cleaned_models) \<subseteq> keys(rescaled_models) \<subseteq> keys(raw_models)\<close>. A row
  that fails the zero-numerator check is stored in \<open>raw_models\<close> only, and a row all of whose
  numerator terms are dropped is stored in \<open>raw_models\<close> and \<open>rescaled_models\<close> only; neither
  has a row in the CSV export.
\<close>

theorem stored_stages_nested:
  "dom (final_models (print_and_store_models eng latex eq_list))
     = dom (cleaned_models (print_and_store_models eng latex eq_list)) \<and>
   dom (cleaned_models (print_and_store_models eng latex eq_list))
     \<subseteq> dom (rescaled_models (print_and_store_models eng latex eq_list)) \<and>
   dom (rescaled_models (print_and_store_models eng latex eq_list))
     \<subseteq> dom (raw_models (print_and_store_models eng latex eq_list)) \<and>
   (\<forall>i < length eq_list. row_outcome eng (eq_list ! i) = ZeroNumerator \<longrightarrow>
      i \<in> dom (raw_models (print_and_store_models eng latex eq_list)) \<and>
      i \<notin> dom (rescaled_models (print_and_store_models eng latex eq_list)) \<and>
      i \<notin> dom (cleaned_models (print_and_store_models eng latex eq_list)) \<and>
      i \<notin> dom (final_models (print_and_store_models eng latex eq_list)) \<and>
      i \<notin> fst ` set (rows_for_csv (print_and_store_models eng latex eq_list))) \<and>
   (\<forall>i < length eq_list. row_outcome eng (eq_list ! i) = AllTermsDropped \<longrightarrow>
      i \<in> dom (raw_models (print_and_store_models eng latex eq_list)) \<and>
      i \<in> dom (rescaled_models (print_and_store_models eng latex eq_list)) \<and>
      i \<notin> dom (cleaned_models (print_and_store_models eng latex eq_list)) \<and>
      i \<notin> dom (final_models (print_and_store_models eng latex eq_list)) \<and>
      i \<notin> fst ` set (rows_for_csv (print_and_store_models eng latex eq_list)))"
  unfolding stored_indices by auto

theorem stored_stages_nested_witness:
  "(1::nat) \<in> dom (raw_models (print_and_store_models example_engine False example_rows)) \<and>
   (1::nat) \<notin> dom (rescaled_models (print_and_store_models example_engine False example_rows)) \<and>
   (1::nat) \<notin> fst ` set (rows_for_csv (print_and_store_models example_engine False example_rows)) \<and>
   dom (final_models (print_and_store_models example_engine False example_rows))
     = dom (cleaned_models (print_and_store_models example_engine False example_rows)) \<and>
   (0::nat) \<in> dom (rescaled_models
      (print_and_store_models dropping_engine False [Frac [(1, Exact, {#''x''#})] [(1, Exact, {#})]])) \<and>
   (0::nat) \<notin> dom (cleaned_models
      (print_and_store_models dropping_engine False [Frac [(1, Exact, {#''x''#})] [(1, Exact, {#})]]))"
proof -
  have z: "row_outcome example_engine (example_rows ! 1) = ZeroNumerator"
    by (simp add: example_rows_def example_engine_def repository_engine_def row_outcome_def
        numerator_is_zero_def)
  have l: "1 < length example_rows" by (simp add: example_rows_def)
  have d: "row_outcome dropping_engine ([Frac [(1, Exact, {#''x''#})] [(1, Exact, {#})]] ! 0) = AllTermsDropped"
    by (simp add: dropping_engine_def row_outcome_def numerator_is_zero_def)
  note t1 = stored_stages_nested [of example_engine False example_rows]
  note t2 = stored_stages_nested [of dropping_engine False "[Frac [(1, Exact, {#''x''#})] [(1, Exact, {#})]]"]
  from t1 have n: "dom (final_models (print_and_store_models example_engine False example_rows))
     = dom (cleaned_models (print_and_store_models example_engine False example_rows))"
    by (rule conjunct1)
  from t1 have "\<forall>i < length example_rows. row_outcome example_engine (example_rows ! i) = ZeroNumerator \<longrightarrow>
      i \<in> dom (raw_models (print_and_store_models example_engine False example_rows)) \<and>
      i \<notin> dom (rescaled_models (print_and_store_models example_engine False example_rows)) \<and>
      i \<notin> dom (cleaned_models (print_and_store_models example_engine False example_rows)) \<and>
      i \<notin> dom (final_models (print_and_store_models example_engine False example_rows)) \<and>
      i \<notin> fst ` set (rows_for_csv (print_and_store_models example_engine False example_rows))"
    by (elim conjE)
  with z l have a: "(1::nat) \<in> dom (raw_models (print_and_store_models example_engine False example_rows)) \<and>
   (1::nat) \<notin> dom (rescaled_models (print_and_store_models example_engine False example_rows)) \<and>
   (1::nat) \<notin> fst ` set (rows_for_csv (print_and_store_models example_engine False example_rows))"
    by (elim allE [of _ 1] impE) (assumption, assumption, (elim conjE, intro conjI, assumption+))
  from t2 have "\<forall>i < length [Frac [(1, Exact, {#''x''#})] [(1, Exact, {#})]].
      row_outcome dropping_engine ([Frac [(1, Exact, {#''x''#})] [(1, Exact, {#})]] ! i) = AllTermsDropped \<longrightarrow>
      i \<in> dom (raw_models (print_and_store_models dropping_engine False [Frac [(1, Exact, {#''x''#})] [(1, Exact, {#})]])) \<and>
      i \<in> dom (rescaled_models (print_and_store_models dropping_engine False [Frac [(1, Exact, {#''x''#})] [(1, Exact, {#})]])) \<and>
      i \<notin> dom (cleaned_models (print_and_store_models dropping_engine False [Frac [(1, Exact, {#''x''#})] [(1, Exact, {#})]])) \<and>
      i \<notin> dom (final_models (print_and_store_models dropping_engine False [Frac [(1, Exact, {#''x''#})] [(1, Exact, {#})]])) \<and>
      i \<notin> fst ` set (rows_for_csv (print_and_store_models dropping_engine False [Frac [(1, Exact, {#''x''#})] [(1, Exact, {#})]]))"
    by (elim conjE)
  moreover have "(0::nat) < length [Frac [(1, Exact, {#''x''#})] [(1, Exact, {#})]]" by simp
  ultimately have b: "(0::nat) \<in> dom (rescaled_models
      (print_and_store_models dropping_engine False [Frac [(1, Exact, {#''x''#})] [(1, Exact, {#})]])) \<and>
   (0::nat) \<notin> dom (cleaned_models
      (print_and_store_models dropping_engine False [Frac [(1, Exact, {#''x''#})] [(1, Exact, {#})]]))"
    using d by (elim allE [of _ 0] impE) (assumption, assumption, (elim conjE, intro conjI, assumption+))
  from a n b show ?thesis by (elim conjE) (intro conjI, assumption+)
qed

theorem counters_sum_to_rows_witness:
  "successful_models (print_and_store_models example_engine False example_rows) = 1 \<and>
   failed_models (print_and_store_models example_engine False example_rows) = 2 \<and>
   last (printed (print_and_store_models example_engine False example_rows)) = Summary 3 1 2"
proof -
  have o0: "row_outcome example_engine None = SolveFailure"
    by (simp add: example_engine_def repository_engine_def row_outcome_def)
  have o1: "row_outcome example_engine (Some (Frac [] [(1, Exact, {#})])) = ZeroNumerator"
    by (simp add: example_engine_def repository_engine_def row_outcome_def numerator_is_zero_def)
  have o2: "row_outcome example_engine
      (Some (Frac [(2, Floating, {#''x''#}), (- 1, Floating, {#''y''#})] [(1, Exact, {#})])) = Final"
    by code_simp
  have s: "successful_models (print_and_store_models example_engine False example_rows) = 1"
    using process_row_counters [of example_engine False]
    by (simp add: print_and_store_models_def Let_def example_rows_def o0 o1 o2 initial_models_def)
  have l: "length example_rows = 3" by (simp add: example_rows_def)
  note th = counters_sum_to_rows [of example_engine False example_rows]
  note sum = th [THEN conjunct2, THEN conjunct1] and summary = th [THEN conjunct2, THEN conjunct2]
  from sum s l have f: "failed_models (print_and_store_models example_engine False example_rows) = 2"
    by simp
  from summary s f l show ?thesis by simp
qed

end

